theory Spec2Isabelle
  imports Main "HOL-Library.Word"
begin

unbundle bit_operations_syntax

section \<open>Reset of a Spectrum/SwitchX device: drivers/net/mlx_sx/reset.c\<close>

text \<open>
  The functions of reset.c are embedded one by one, under their own names (without the
  leading underscores, which an Isabelle name cannot carry). Everything the C code does
  to the world goes through a state that is passed along and returned: the clock, the
  module parameters, the in-progress flag of the device and a trace of the calls made to
  the kernel and to the rest of the driver. Whatever the world answers (the value of the
  status register, whether a mapping succeeds, how long a sleep really lasts) is read
  from an environment, so that each theorem holds for every behaviour of the hardware
  and of the scheduler.
\<close>

subsection \<open>Types and constants\<close>

type_synonym u8 = "8 word"
type_synonym u16 = "16 word"
type_synonym u32 = "32 word"
type_synonym u64 = "64 word"

text \<open>
  The errno numbers are those of Linux (errno-base.h and errno.h); reset.c uses the
  names only and returns them negated.
\<close>

definition ENOMEM :: int where "ENOMEM = 12"
definition EFAULT :: int where "EFAULT = 14"
definition ENODEV :: int where "ENODEV = 19"
definition ETIME :: int where "ETIME = 62"

text \<open>
  \<open>dev->pdev->device\<close> is compared with the macros below only; their numbers are
  declared in a header that is not part of the sources, and the two switch statements
  need nothing but that they differ. The device identifier is therefore the label it
  matches, with one more value for an identifier that matches none.
\<close>

datatype pci_dev_id =
    SWITCHX_PCI_DEV_ID
  | SPECTRUM_PCI_DEV_ID
  | SPECTRUM2_PCI_DEV_ID
  | SPECTRUM3_PCI_DEV_ID
  | SPECTRUM4_PCI_DEV_ID
  | SWITCH_IB_PCI_DEV_ID
  | SWITCH_IB2_PCI_DEV_ID
  | QUANTUM_PCI_DEV_ID
  | QUANTUM2_PCI_DEV_ID
  | QUANTUM3_PCI_DEV_ID
  | OTHER_PCI_DEV_ID

text \<open>
  What is fixed when the module is compiled: the preprocessor symbols that reset.c
  tests, the tick rate \<open>HZ\<close> of the kernel with its two conversions between
  milliseconds and jiffies, and the byte offsets of the registers of the configuration
  space that reset.c names. The conversions \<open>msecs_to_jiffies\<close> and
  \<open>jiffies_to_msecs\<close> are functions of the kernel (include/linux/jiffies.h and
  kernel/time/time.c) whose code depends on \<open>HZ\<close> and on constants that the build
  of the kernel computes; the offsets come from the kernel's pci_regs.h. Neither is part
  of the sources, so the functions of reset.c take them from the build, and what is
  proved holds for every kernel; \<open>linux_build\<close> below has the conversions of a
  kernel with 1000 ticks a second and the offsets of that header. \<open>jiffies\<close> is an
  \<open>unsigned long\<close> of 64 bits.
\<close>

record build_config =
  INCREASED_TIMEOUT :: bool
  PD_BU :: bool
  QUANTUM3_BU :: bool
  HZ :: nat
  msecs_to_jiffies :: "u32 \<Rightarrow> u64"
  jiffies_to_msecs :: "u64 \<Rightarrow> u32"
  PCI_VENDOR_ID :: nat
  PCI_COMMAND :: nat
  PCI_EXP_DEVCTL :: nat
  PCI_EXP_LNKCTL :: nat

definition RESET_TRIGGER_TIMEOUT :: "build_config \<Rightarrow> u64" where
  "RESET_TRIGGER_TIMEOUT B = of_nat (10 * HZ B)"

definition SX_RESET_TIMEOUT_JIFFIES :: "build_config \<Rightarrow> u64" where
  "SX_RESET_TIMEOUT_JIFFIES B = of_nat (2 * HZ B)"

definition SX_SYSTEM_STATUS_REG_OFFSET :: nat where
  "SX_SYSTEM_STATUS_REG_OFFSET = 0xA1844"

definition SX_SYSTEM_STATUS_REG_MASK :: u32 where
  "SX_SYSTEM_STATUS_REG_MASK = 0xFF"

definition SX_SYSTEM_STATUS_ENABLED :: u32 where
  "SX_SYSTEM_STATUS_ENABLED = 0x5E"

definition SX_SW_RESET_TIMEOUT_MSECS :: "build_config \<Rightarrow> u32" where
  "SX_SW_RESET_TIMEOUT_MSECS B = (if INCREASED_TIMEOUT B then 25 * 60 * 1000 else 5 * 1000)"

definition SX_RESET_BASE :: nat where
  "SX_RESET_BASE = 0xf0010"

definition SX_RESET_VALUE :: u32 where
  \<comment> \<open>\<open>swab32(1)\<close>: the four bytes of 1 in reverse order\<close>
  "SX_RESET_VALUE = 0x01000000"

subsection \<open>The world around the driver\<close>

text \<open>
  The calls that leave reset.c, in the order they are made. A mapping is named by its
  offset from the start of BAR 0, a configuration access by its byte offset.
\<close>

datatype dev_event = SX_DEV_EVENT_PRE_RESET | SX_DEV_EVENT_POST_RESET

datatype event =
    Ioremap nat bool
  | Iounmap nat
  | Ioread32be u32
  | Writel u32
  | Msleep nat
  | Printk_wait_for_reset u32
  | Sx_ACCESS_REG_MRSR int
  | Pci_read_config_word nat
  | Pci_read_config_dword nat
  | Pci_write_config_word nat u16
  | Pci_write_config_dword nat u32
  | Sx_cmd_use_polling
  | Sx_core_dispatch_event dev_event "int option"

text \<open>
  The environment holds the answers of the world: \<open>status_word k\<close> is what the
  \<open>k\<close>-th \<open>ioread32be\<close> of the status register returns, \<open>ioremap_ok k\<close> whether the
  \<open>k\<close>-th \<open>ioremap\<close> yields a mapping, \<open>cfg_access k\<close> the return code of the \<open>k\<close>-th
  access to the configuration space and the value it stores for a read. The clock
  moves at the places where reset.c sleeps or reads \<open>jiffies\<close>; these places are
  counted as the run goes, and \<open>ticks k\<close> is the number of jiffies that pass at the
  \<open>k\<close>-th of them: before a read of \<open>jiffies\<close>, the time since the clock was
  last looked at, and in a sleep, the time by which the scheduler lets it last longer
  than asked. \<open>trigger_write k\<close> is a value that somebody stored into the module
  parameter \<open>reset_trigger\<close> during the sleep at the \<open>k\<close>-th place.
  \<open>post_reset_handler\<close>
  is what the subscribers of the post-reset event do with the error code they are
  handed: the return code of the dispatch and the error code they leave in the payload.
  \<open>beyond_header\<close> is the memory the header buffer points into (the buffer is not
  initialised by \<open>kmalloc\<close>, and nothing stops an index beyond its 64 words).
\<close>

record env =
  cfg :: build_config
  status_word :: "nat \<Rightarrow> u32"
  ioremap_ok :: "nat \<Rightarrow> bool"
  cfg_access :: "nat \<Rightarrow> int \<times> u32"
  ticks :: "nat \<Rightarrow> nat"
  trigger_write :: "nat \<Rightarrow> int option"
  mrsr_ret :: int
  pcie_cap :: nat
  kzalloc_ok :: bool
  kmalloc_ok :: bool
  pre_reset_ret :: int
  post_reset_handler :: "int \<Rightarrow> int \<times> int"
  beyond_header :: "nat \<Rightarrow> u32"

text \<open>
  The state: the device (\<open>dev\<close> and \<open>dev->pdev\<close> may be null pointers,
  \<open>device\<close> is \<open>dev->pdev->device\<close>, \<open>dev_sw_rst_flow\<close> the flag of
  \<open>sx_priv(dev)\<close>), the two module parameters, the clock \<open>jiffies\<close> with the
  number \<open>n_clock\<close> of places passed at which it moves, the number of answers
  already taken from each sequence of the environment, and the trace. Every entry of
  the trace carries the value \<open>dev_sw_rst_flow\<close> had when the call was made.
\<close>

record state =
  dev_present :: bool
  pdev_present :: bool
  device :: pci_dev_id
  dev_sw_rst_flow :: bool
  reset_trigger :: int
  debug_fw_trace_boot_flow :: int
  jiffies :: u64
  n_clock :: nat
  n_ioremap :: nat
  n_ioread :: nat
  n_cfg :: nat
  trace :: "(bool \<times> event) list"

definition emit :: "event \<Rightarrow> state \<Rightarrow> state" where
  "emit e s = s\<lparr>trace := trace s @ [(dev_sw_rst_flow s, e)]\<rparr>"

text \<open>
  \<open>time_before(a, b)\<close> of include/linux/jiffies.h is \<open>((long)((a) - (b)) < 0)\<close>:
  the difference of the two \<open>unsigned long\<close> wraps around and is read as a signed
  number.
\<close>

definition time_before :: "u64 \<Rightarrow> u64 \<Rightarrow> bool" where
  "time_before a b = (sint (a - b) < 0)"

text \<open>
  The clock. At a place where it moves, at least \<open>d\<close> jiffies pass, and
  \<open>ticks\<close> more; the counter wraps around as an \<open>unsigned long\<close> does. No single
  step is longer than \<open>MAX_STEP\<close> jiffies, which are millions of years at any tick
  rate: a sleep followed by a read of the clock then stays below \<open>2^63\<close> jiffies, the
  span beyond which \<open>time_before\<close> no longer tells before from after, and every
  loop that waits for a deadline comes to an end.
\<close>

definition MAX_STEP :: nat where
  "MAX_STEP = 2 ^ 62 - 1"

definition tick :: "env \<Rightarrow> nat \<Rightarrow> u64 \<times> nat \<Rightarrow> u64 \<times> nat" where
  "tick E d c = (fst c + of_nat (min (d + ticks E (snd c)) MAX_STEP), snd c + 1)"

definition elapse :: "env \<Rightarrow> nat \<Rightarrow> state \<Rightarrow> state" where
  "elapse E d s =
     (let (j, k) = tick E d (jiffies s, n_clock s) in s\<lparr>jiffies := j, n_clock := k\<rparr>)"

text \<open>
  A read of the variable \<open>jiffies\<close>: the time since the clock was last looked at has
  passed. Every occurrence of \<open>jiffies\<close> in reset.c is one such read.
\<close>

definition read_jiffies :: "env \<Rightarrow> state \<Rightarrow> u64 \<times> state" where
  "read_jiffies E s = (let s1 = elapse E 0 s in (jiffies s1, s1))"

text \<open>
  \<open>msleep(n)\<close> sleeps for the jiffies of \<open>n\<close> milliseconds and one more, as the
  kernel's \<open>msleep\<close> asks the scheduler for, and for as much longer as the scheduler
  makes it; a write to the module parameter made meanwhile is seen when it returns.
\<close>

definition msleep :: "env \<Rightarrow> u32 \<Rightarrow> state \<Rightarrow> state" where
  "msleep E n s =
     (let s1 = emit (Msleep (unat n)) s;
          s2 = elapse E (unat (msecs_to_jiffies (cfg E) n) + 1) s1
      in s2\<lparr>reset_trigger :=
              (case trigger_write E (n_clock s) of None \<Rightarrow> reset_trigger s | Some v \<Rightarrow> v)\<rparr>)"

subsection \<open>Device Reset Policy: \<open>__get_chip_reset_duration\<close>\<close>

definition get_chip_reset_duration :: "build_config \<Rightarrow> state \<Rightarrow> u32" where
  "get_chip_reset_duration B s =
     (let duration =
            (case device s of
               QUANTUM_PCI_DEV_ID \<Rightarrow> 15 * 1000
             | QUANTUM2_PCI_DEV_ID \<Rightarrow> 15 * 1000
             | QUANTUM3_PCI_DEV_ID \<Rightarrow> 15 * 1000
             | SPECTRUM2_PCI_DEV_ID \<Rightarrow> 15 * 60 * 1000
             | SPECTRUM3_PCI_DEV_ID \<Rightarrow> 15 * 60 * 1000
             | SPECTRUM4_PCI_DEV_ID \<Rightarrow> 15 * 60 * 1000
             | _ \<Rightarrow> SX_SW_RESET_TIMEOUT_MSECS B)
      in if PD_BU B \<and> QUANTUM3_BU B then 20 * 60 * 1000 else duration)"

subsection \<open>Status Poller: \<open>__wait_for_system_ready\<close>\<close>

text \<open>
  The body of the \<open>do ... while\<close> loop, from the read of the status word to the test
  of the deadline. It returns the error code, the elapsed milliseconds stored through
  \<open>time_waited_msec\<close> on success, and the state. The loop comes to an end
  because a sleep and the read of the clock after it move the clock by at least one and
  by fewer than \<open>2^63\<close> jiffies, and a step of that size that leaves the clock
  before the deadline has brought it nearer to the deadline by as many jiffies.
\<close>

function poll_status :: "env \<Rightarrow> u64 \<Rightarrow> u64 \<Rightarrow> state \<Rightarrow> int \<times> u32 option \<times> state" where
  "poll_status E start end s =
     (let val = status_word E (n_ioread s);
          s1 = emit (Ioread32be val) (s\<lparr>n_ioread := n_ioread s + 1\<rparr>)
      in if SX_SYSTEM_STATUS_ENABLED = (val AND SX_SYSTEM_STATUS_REG_MASK)
         then (let (j, s2) = read_jiffies E s1
               in (0, Some (jiffies_to_msecs (cfg E) (j - start)), s2))
         else (let s2 = msleep E 1 s1;
                   (j, s3) = read_jiffies E s2
               in if time_before j end
                  then poll_status E start end s3
                  else (- ETIME, None, s3)))"
  by pat_completeness auto
termination
  apply (relation "measure (\<lambda>(E, start, end, s). unat (end - jiffies s))")
   apply simp
  subgoal premises a for E start "end" s x xa xb xc xd y
  proof -
    have neg: "(sint w < 0) = (9223372036854775808 \<le> unat w)" for w :: u64
    proof -
      have b: "uint w < 18446744073709551616" using uint_bounded [of w] by simp
      have n: "0 \<le> uint w" by simp
      have "(sint w < 0) = bit (uint w) 63"
        by (simp add: sint_uint signed_take_bit_negative_iff)
      also have "\<dots> = odd (uint w div 9223372036854775808)" by (simp add: bit_iff_odd)
      also have "\<dots> = (9223372036854775808 \<le> uint w)"
      proof (cases "9223372036854775808 \<le> uint w")
        case True
        with b have "uint w div 9223372036854775808 = 1" by simp
        with True show ?thesis by simp
      next
        case False
        with n have "uint w div 9223372036854775808 = 0" by simp
        with False show ?thesis by simp
      qed
      also have "\<dots> = (9223372036854775808 \<le> unat w)"
        by (simp only: uint_nat) linarith
      finally show ?thesis .
    qed
    have step: "unat (e - (a + of_nat d1 + of_nat d2)) < unat (e - a)"
      if d1: "1 \<le> d1" "d1 \<le> MAX_STEP" and d2: "d2 \<le> MAX_STEP"
        and tb: "time_before (a + of_nat d1 + of_nat d2) e" for a e :: u64 and d1 d2
    proof -
      define w :: u64 where "w = of_nat (d1 + d2)"
      from d1 d2 have d: "d1 + d2 < 9223372036854775808" "1 \<le> d1 + d2"
        by (simp_all add: MAX_STEP_def)
      then have uw: "unat w = d1 + d2" unfolding w_def by (simp only: unat_of_nat) simp
      have e1: "e - (a + of_nat d1 + of_nat d2) = (e - a) - w" by (simp add: w_def)
      have e2: "a + of_nat d1 + of_nat d2 - e = w - (e - a)" by (simp add: w_def)
      from tb have big: "9223372036854775808 \<le> unat (w - (e - a))"
        by (simp only: time_before_def e2 neg)
      have le: "unat w \<le> unat (e - a)"
      proof (rule ccontr)
        assume "\<not> unat w \<le> unat (e - a)"
        then have "unat (w - (e - a)) = unat w - unat (e - a)" by (simp add: unat_sub_if')
        with big uw d show False by simp
      qed
      then have "unat ((e - a) - w) = unat (e - a) - unat w" by (simp add: unat_sub_if')
      with le uw d show ?thesis unfolding e1 by simp
    qed
    define d1 where "d1 = min (unat (msecs_to_jiffies (cfg E) 1) + 1 + ticks E (n_clock s)) MAX_STEP"
    define d2 where "d2 = min (0 + ticks E (n_clock s + 1)) MAX_STEP"
    from a(6) [unfolded a(5) a(4) a(2)]
    have j: "xd = jiffies s + of_nat d1 + of_nat d2"
      "jiffies y = jiffies s + of_nat d1 + of_nat d2"
      by (auto simp: d1_def d2_def read_jiffies_def msleep_def elapse_def tick_def emit_def Let_def)
    have b: "1 \<le> d1" "d1 \<le> MAX_STEP" "d2 \<le> MAX_STEP"
      by (simp_all add: d1_def d2_def MAX_STEP_def)
    from a(7) have tb: "time_before (jiffies s + of_nat d1 + of_nat d2) end" by (simp only: j(1))
    from step [OF b tb] show ?thesis by (simp add: j(2))
  qed
  done

text \<open>
  \<open>__wait_for_system_ready\<close>. The mapping of the status register can fail; the
  \<open>printk\<close> that reports the budget is kept in the trace, the other log lines of
  reset.c are not modelled. \<open>jiffies\<close> is read twice before the loop, for \<open>start\<close>
  and for \<open>end\<close>. Where the caller passes a null pointer for \<open>time_waited_msec\<close>,
  as \<open>sx_reset\<close> does, the elapsed time is not stored; that caller does not look at
  it.
\<close>

definition wait_for_system_ready :: "env \<Rightarrow> u32 \<Rightarrow> state \<Rightarrow> int \<times> u32 option \<times> state" where
  "wait_for_system_ready E wait_for_reset_msec s =
     (let ok = ioremap_ok E (n_ioremap s);
          s0 = emit (Ioremap SX_SYSTEM_STATUS_REG_OFFSET ok) (s\<lparr>n_ioremap := n_ioremap s + 1\<rparr>)
      in if \<not> ok then (- ENOMEM, None, s0)
         else (let (start, s1) = read_jiffies E s0;
                   (j, s2) = read_jiffies E s1;
                   end = j + msecs_to_jiffies (cfg E) wait_for_reset_msec;
                   s3 = emit (Printk_wait_for_reset wait_for_reset_msec) s2;
                   (ret, time_waited_msec, s4) = poll_status E start end s3
               in (ret, time_waited_msec, emit (Iounmap SX_SYSTEM_STATUS_REG_OFFSET) s4)))"

subsection \<open>Reset Executors\<close>

definition reset_dev_by_mrsr_reg :: "env \<Rightarrow> state \<Rightarrow> int \<times> state" where
  "reset_dev_by_mrsr_reg E s =
     (let err = mrsr_ret E;
          s1 = emit (Sx_ACCESS_REG_MRSR err) s
      in (err, s1))"

text \<open>The label \<open>out\<close> of \<open>sdk_sx_reset\<close> and of \<open>legacy_reset\<close>.\<close>

definition out_dev_sw_rst_flow :: "int \<Rightarrow> state \<Rightarrow> int \<times> state" where
  "out_dev_sw_rst_flow err s = (err, s\<lparr>dev_sw_rst_flow := False\<rparr>)"

definition sdk_sx_reset :: "env \<Rightarrow> state \<Rightarrow> int \<times> state" where
  "sdk_sx_reset E s =
     (let wait_for_reset = get_chip_reset_duration (cfg E) s;
          (err, time_waited, s1) = wait_for_system_ready E wait_for_reset s
      in if err \<noteq> 0 then out_dev_sw_rst_flow err s1
         else (let s2 = s1\<lparr>dev_sw_rst_flow := True\<rparr>;
                   (err, s3) = reset_dev_by_mrsr_reg E s2
               in if err \<noteq> 0 then out_dev_sw_rst_flow err s3
                  else (let (err, time_waited, s4) = wait_for_system_ready E 0 s3
                        in if err \<noteq> - ETIME then out_dev_sw_rst_flow (- EFAULT) s4
                           else (let (err, time_waited, s5) =
                                       wait_for_system_ready E wait_for_reset s4
                                 in out_dev_sw_rst_flow err s5))))"

definition do_legacy_reset :: "env \<Rightarrow> state \<Rightarrow> int \<times> state" where
  "do_legacy_reset E s =
     (let ok = ioremap_ok E (n_ioremap s);
          s0 = emit (Ioremap SX_RESET_BASE ok) (s\<lparr>n_ioremap := n_ioremap s + 1\<rparr>)
      in if \<not> ok then (- ENOMEM, s0)
         else (let s1 = emit (Writel SX_RESET_VALUE) s0;
                   s2 = emit (Iounmap SX_RESET_BASE) s1;
                   s3 = msleep E (if INCREASED_TIMEOUT (cfg E) then 180000 else 3000) s2
               in (0, s3)))"

text \<open>
  The loop that reads the vendor identifier until it is no longer \<open>0xffff\<close>. It
  stands twice in reset.c with the same text, in \<open>legacy_reset_SwitchX\<close> and in
  \<open>sx_reset\<close>. The result is the value left in \<open>vendor\<close>.
\<close>

function poll_vendor_id :: "env \<Rightarrow> u64 \<Rightarrow> state \<Rightarrow> u16 \<times> state" where
  "poll_vendor_id E end s =
     (let (rc, v) = cfg_access E (n_cfg s);
          vendor = (ucast v :: u16);
          s1 = emit (Pci_read_config_word (PCI_VENDOR_ID (cfg E))) (s\<lparr>n_cfg := n_cfg s + 1\<rparr>)
      in if rc = 0 \<and> vendor \<noteq> 0xffff then (vendor, s1)
         else (let s2 = msleep E 1 s1;
                   (j, s3) = read_jiffies E s2
               in if time_before j end
                  then poll_vendor_id E end s3
                  else (vendor, s3)))"
  by pat_completeness auto
termination
  apply (relation "measure (\<lambda>(E, end, s). unat (end - jiffies s))")
   apply simp
  subgoal premises a for E "end" s x xa y xb xc xd xe xf ya
  proof -
    have neg: "(sint w < 0) = (9223372036854775808 \<le> unat w)" for w :: u64
    proof -
      have b: "uint w < 18446744073709551616" using uint_bounded [of w] by simp
      have n: "0 \<le> uint w" by simp
      have "(sint w < 0) = bit (uint w) 63"
        by (simp add: sint_uint signed_take_bit_negative_iff)
      also have "\<dots> = odd (uint w div 9223372036854775808)" by (simp add: bit_iff_odd)
      also have "\<dots> = (9223372036854775808 \<le> uint w)"
      proof (cases "9223372036854775808 \<le> uint w")
        case True
        with b have "uint w div 9223372036854775808 = 1" by simp
        with True show ?thesis by simp
      next
        case False
        with n have "uint w div 9223372036854775808 = 0" by simp
        with False show ?thesis by simp
      qed
      also have "\<dots> = (9223372036854775808 \<le> unat w)"
        by (simp only: uint_nat) linarith
      finally show ?thesis .
    qed
    have step: "unat (e - (a + of_nat d1 + of_nat d2)) < unat (e - a)"
      if d1: "1 \<le> d1" "d1 \<le> MAX_STEP" and d2: "d2 \<le> MAX_STEP"
        and tb: "time_before (a + of_nat d1 + of_nat d2) e" for a e :: u64 and d1 d2
    proof -
      define w :: u64 where "w = of_nat (d1 + d2)"
      from d1 d2 have d: "d1 + d2 < 9223372036854775808" "1 \<le> d1 + d2"
        by (simp_all add: MAX_STEP_def)
      then have uw: "unat w = d1 + d2" unfolding w_def by (simp only: unat_of_nat) simp
      have e1: "e - (a + of_nat d1 + of_nat d2) = (e - a) - w" by (simp add: w_def)
      have e2: "a + of_nat d1 + of_nat d2 - e = w - (e - a)" by (simp add: w_def)
      from tb have big: "9223372036854775808 \<le> unat (w - (e - a))"
        by (simp only: time_before_def e2 neg)
      have le: "unat w \<le> unat (e - a)"
      proof (rule ccontr)
        assume "\<not> unat w \<le> unat (e - a)"
        then have "unat (w - (e - a)) = unat w - unat (e - a)" by (simp add: unat_sub_if')
        with big uw d show False by simp
      qed
      then have "unat ((e - a) - w) = unat (e - a) - unat w" by (simp add: unat_sub_if')
      with le uw d show ?thesis unfolding e1 by simp
    qed
    define d1 where "d1 = min (unat (msecs_to_jiffies (cfg E) 1) + 1 + ticks E (n_clock s)) MAX_STEP"
    define d2 where "d2 = min (0 + ticks E (n_clock s + 1)) MAX_STEP"
    from a(8) [unfolded a(7) a(6) a(4)]
    have j: "xf = jiffies s + of_nat d1 + of_nat d2"
      "jiffies ya = jiffies s + of_nat d1 + of_nat d2"
      by (auto simp: d1_def d2_def read_jiffies_def msleep_def elapse_def tick_def emit_def Let_def)
    have b: "1 \<le> d1" "d1 \<le> MAX_STEP" "d2 \<le> MAX_STEP"
      by (simp_all add: d1_def d2_def MAX_STEP_def)
    from a(9) have tb: "time_before (jiffies s + of_nat d1 + of_nat d2) end" by (simp only: j(1))
    from step [OF b tb] show ?thesis by (simp add: j(2))
  qed
  done

definition legacy_reset_SwitchX :: "env \<Rightarrow> state \<Rightarrow> int \<times> state" where
  "legacy_reset_SwitchX E s =
     (if \<not> pdev_present s then (- ENODEV, s)
      else (let (err, s1) = do_legacy_reset E s
            in if err \<noteq> 0 then (err, s1)
               else (let (j, s2) = read_jiffies E s1;
                         end = j + SX_RESET_TIMEOUT_JIFFIES (cfg E);
                         (vendor, s3) = poll_vendor_id E end s2
                     in if vendor = 0xffff then (- ENODEV, s3) else (0, s3))))"

definition legacy_reset :: "env \<Rightarrow> state \<Rightarrow> int \<times> state" where
  "legacy_reset E s =
     (if \<not> pdev_present s then out_dev_sw_rst_flow (- ENODEV) s
      else (let wait_for_reset = get_chip_reset_duration (cfg E) s;
                wait_for_reset = wait_for_reset * 2;
                (err, time_waited, s1) = wait_for_system_ready E wait_for_reset s
            in if err \<noteq> 0 then out_dev_sw_rst_flow err s1
               else (let s2 = s1\<lparr>dev_sw_rst_flow := True\<rparr>;
                         (err, s3) = do_legacy_reset E s2
                     in if err \<noteq> 0 then out_dev_sw_rst_flow err s3
                        else (let (err, time_waited, s4) =
                                    wait_for_system_ready E wait_for_reset s3
                              in out_dev_sw_rst_flow err s4))))"

text \<open>
  \<open>perform_dev_sw_reset\<close>: the nine labels of the modern devices share one body.
  Its only caller has checked \<open>dev->pdev\<close> before.
\<close>

definition perform_dev_sw_reset :: "env \<Rightarrow> state \<Rightarrow> int \<times> state" where
  "perform_dev_sw_reset E s =
     (let chip_reset =
            (let (err, s1) = sdk_sx_reset E s
             in if err \<noteq> 0 then legacy_reset E s1 else (err, s1))
      in case device s of
           SWITCHX_PCI_DEV_ID \<Rightarrow> legacy_reset_SwitchX E s
         | SPECTRUM_PCI_DEV_ID \<Rightarrow> chip_reset
         | SPECTRUM2_PCI_DEV_ID \<Rightarrow> chip_reset
         | SPECTRUM3_PCI_DEV_ID \<Rightarrow> chip_reset
         | SPECTRUM4_PCI_DEV_ID \<Rightarrow> chip_reset
         | SWITCH_IB_PCI_DEV_ID \<Rightarrow> chip_reset
         | SWITCH_IB2_PCI_DEV_ID \<Rightarrow> chip_reset
         | QUANTUM_PCI_DEV_ID \<Rightarrow> chip_reset
         | QUANTUM2_PCI_DEV_ID \<Rightarrow> chip_reset
         | QUANTUM3_PCI_DEV_ID \<Rightarrow> chip_reset
         | OTHER_PCI_DEV_ID \<Rightarrow> (- ENODEV, s))"

subsection \<open>Configuration Snapshot\<close>

text \<open>
  The header buffer is the memory \<open>hca_header_p\<close> points to, word by word: the words
  from 64 on lie behind the 256 bytes that were allocated. Each \<open>for\<close> statement runs
  over the list of its indices.
\<close>

type_synonym hca_header = "nat \<Rightarrow> u32"

fun save_headers_loop :: "env \<Rightarrow> nat list \<Rightarrow> hca_header \<Rightarrow> state \<Rightarrow> int \<times> hca_header \<times> state" where
  "save_headers_loop E [] h s = (0, h, s)"
| "save_headers_loop E (i # is) h s =
     (if i = 22 \<or> i = 23 then save_headers_loop E is h s
      else (let (rc, v) = cfg_access E (n_cfg s);
                s1 = emit (Pci_read_config_dword (i * 4)) (s\<lparr>n_cfg := n_cfg s + 1\<rparr>);
                h1 = h(i := v)
            in if rc \<noteq> 0 then (- ENODEV, h1, s1)
               else save_headers_loop E is h1 s1))"

definition save_headers_data :: "env \<Rightarrow> state \<Rightarrow> int \<times> hca_header \<times> state" where
  "save_headers_data E s =
     save_headers_loop E [0..<64] (\<lambda>i. if i < 64 then 0 else beyond_header E i) s"

definition pci_write_config_word :: "env \<Rightarrow> nat \<Rightarrow> u16 \<Rightarrow> state \<Rightarrow> int \<times> state" where
  "pci_write_config_word E off v s =
     (fst (cfg_access E (n_cfg s)),
      emit (Pci_write_config_word off v) (s\<lparr>n_cfg := n_cfg s + 1\<rparr>))"

definition pci_write_config_dword :: "env \<Rightarrow> nat \<Rightarrow> u32 \<Rightarrow> state \<Rightarrow> int \<times> state" where
  "pci_write_config_dword E off v s =
     (fst (cfg_access E (n_cfg s)),
      emit (Pci_write_config_dword off v) (s\<lparr>n_cfg := n_cfg s + 1\<rparr>))"

fun restore_headers_loop :: "env \<Rightarrow> nat list \<Rightarrow> hca_header \<Rightarrow> state \<Rightarrow> int \<times> state" where
  "restore_headers_loop E [] h s = (0, s)"
| "restore_headers_loop E (i # is) h s =
     (if i * 4 = PCI_COMMAND (cfg E) then restore_headers_loop E is h s
      else (let (rc, s1) = pci_write_config_dword E (i * 4) (h i) s
            in if rc \<noteq> 0 then (- ENODEV, s1)
               else restore_headers_loop E is h s1))"

text \<open>The part of \<open>__restore_headers_data\<close> after the PCI Express registers.\<close>

definition restore_headers_words :: "env \<Rightarrow> hca_header \<Rightarrow> state \<Rightarrow> int \<times> state" where
  "restore_headers_words E h s =
     (let (err, s1) = restore_headers_loop E [0..<16] h s
      in if err \<noteq> 0 then (err, s1)
         else (let (rc, s2) = pci_write_config_dword E (PCI_COMMAND (cfg E))
                                (h (PCI_COMMAND (cfg E) div 4)) s1
               in if rc \<noteq> 0 then (- ENODEV, s2) else (0, s2)))"

definition restore_headers_data :: "env \<Rightarrow> hca_header \<Rightarrow> state \<Rightarrow> int \<times> state" where
  "restore_headers_data E h s =
     (if pcie_cap E \<noteq> 0
      then (let devctl = (ucast (h ((pcie_cap E + PCI_EXP_DEVCTL (cfg E)) div 4)) :: u16);
                (rc, s1) = pci_write_config_word E (pcie_cap E + PCI_EXP_DEVCTL (cfg E)) devctl s
            in if rc \<noteq> 0 then (- ENODEV, s1)
               else (let linkctl = (ucast (h ((pcie_cap E + PCI_EXP_LNKCTL (cfg E)) div 4)) :: u16);
                         (rc, s2) = pci_write_config_word E (pcie_cap E + PCI_EXP_LNKCTL (cfg E)) linkctl s1
                     in if rc \<noteq> 0 then (- ENODEV, s2)
                        else restore_headers_words E h s2))
      else restore_headers_words E h s)"

subsection \<open>Reset Orchestrator: \<open>sx_reset\<close>\<close>

text \<open>
  The \<open>while\<close> loop of the gate. The clock is read only if the flag is found clear:
  the right operand of \<open>&&\<close> is not evaluated otherwise.
\<close>

function wait_reset_trigger :: "env \<Rightarrow> u64 \<Rightarrow> state \<Rightarrow> state" where
  "wait_reset_trigger E end s =
     (if reset_trigger s = 0
      then (let (j, s1) = read_jiffies E s
            in if time_before j end
               then wait_reset_trigger E end (msleep E 100 s1)
               else s1)
      else s)"
  by pat_completeness auto
termination
  apply (relation "measure (\<lambda>(E, end, s).
    if reset_trigger s = 0 \<and> time_before (fst (read_jiffies E s)) end
    then unat (end - fst (read_jiffies E s)) else 0)")
   apply simp
  subgoal premises a for E "end" s x xa y
  proof -
    have neg: "(sint w < 0) = (9223372036854775808 \<le> unat w)" for w :: u64
    proof -
      have b: "uint w < 18446744073709551616" using uint_bounded [of w] by simp
      have n: "0 \<le> uint w" by simp
      have "(sint w < 0) = bit (uint w) 63"
        by (simp add: sint_uint signed_take_bit_negative_iff)
      also have "\<dots> = odd (uint w div 9223372036854775808)" by (simp add: bit_iff_odd)
      also have "\<dots> = (9223372036854775808 \<le> uint w)"
      proof (cases "9223372036854775808 \<le> uint w")
        case True
        with b have "uint w div 9223372036854775808 = 1" by simp
        with True show ?thesis by simp
      next
        case False
        with n have "uint w div 9223372036854775808 = 0" by simp
        with False show ?thesis by simp
      qed
      also have "\<dots> = (9223372036854775808 \<le> unat w)"
        by (simp only: uint_nat) linarith
      finally show ?thesis .
    qed
    have step: "unat (e - (a + of_nat d1 + of_nat d2)) < unat (e - a)"
      if d1: "1 \<le> d1" "d1 \<le> MAX_STEP" and d2: "d2 \<le> MAX_STEP"
        and tb: "time_before (a + of_nat d1 + of_nat d2) e" for a e :: u64 and d1 d2
    proof -
      define w :: u64 where "w = of_nat (d1 + d2)"
      from d1 d2 have d: "d1 + d2 < 9223372036854775808" "1 \<le> d1 + d2"
        by (simp_all add: MAX_STEP_def)
      then have uw: "unat w = d1 + d2" unfolding w_def by (simp only: unat_of_nat) simp
      have e1: "e - (a + of_nat d1 + of_nat d2) = (e - a) - w" by (simp add: w_def)
      have e2: "a + of_nat d1 + of_nat d2 - e = w - (e - a)" by (simp add: w_def)
      from tb have big: "9223372036854775808 \<le> unat (w - (e - a))"
        by (simp only: time_before_def e2 neg)
      have le: "unat w \<le> unat (e - a)"
      proof (rule ccontr)
        assume "\<not> unat w \<le> unat (e - a)"
        then have "unat (w - (e - a)) = unat w - unat (e - a)" by (simp add: unat_sub_if')
        with big uw d show False by simp
      qed
      then have "unat ((e - a) - w) = unat (e - a) - unat w" by (simp add: unat_sub_if')
      with le uw d show ?thesis unfolding e1 by simp
    qed
    define d1 where "d1 = min (unat (msecs_to_jiffies (cfg E) 100) + 1 + ticks E (n_clock s + 1)) MAX_STEP"
    define d2 where "d2 = min (0 + ticks E (n_clock s + 1 + 1)) MAX_STEP"
    note r = a(3) [unfolded a(2)]
    from r have x: "fst (read_jiffies E s) = xa" by (metis fst_conv)
    from a(4) have "xa \<noteq> end" by (auto simp: time_before_def)
    then have "end - xa \<noteq> 0" by simp
    then have pos: "0 < unat (end - xa)" by (simp add: unat_gt_0)
    from r have j: "fst (read_jiffies E (msleep E 100 y)) = xa + of_nat d1 + of_nat d2"
      by (auto simp: d1_def d2_def read_jiffies_def msleep_def elapse_def tick_def emit_def Let_def)
    have b: "1 \<le> d1" "d1 \<le> MAX_STEP" "d2 \<le> MAX_STEP"
      by (simp_all add: d1_def d2_def MAX_STEP_def)
    have "unat (end - (xa + of_nat d1 + of_nat d2)) < unat (end - xa)"
      if "time_before (xa + of_nat d1 + of_nat d2) end"
      by (rule step [OF b that])
    with pos a(1,4) show ?thesis by (simp add: x j)
  qed
  done

text \<open>Lines 576 to 593 of \<open>sx_reset\<close>: the gate on the module parameter.\<close>

definition reset_trigger_gate :: "env \<Rightarrow> state \<Rightarrow> state" where
  "reset_trigger_gate E s =
     (if reset_trigger s \<noteq> 0 then s
      else (let (j, s1) = read_jiffies E s;
                end = j + RESET_TRIGGER_TIMEOUT (cfg E);
                s2 = wait_reset_trigger E end s1
            in if reset_trigger s2 \<noteq> 0 then s2 else s2\<lparr>reset_trigger := 1\<rparr>))"

text \<open>
  The label \<open>out\<close> of \<open>sx_reset\<close>, once \<open>event_data\<close> is allocated: the error code
  goes into the payload, the event is dispatched, the return code of the dispatch is
  only logged, and the error code is read back from the payload.
\<close>

definition sx_reset_out :: "env \<Rightarrow> bool \<Rightarrow> int \<Rightarrow> state \<Rightarrow> int \<times> state" where
  "sx_reset_out E is_pre_reset_event err s =
     (if is_pre_reset_event
      then (let s1 = emit (Sx_core_dispatch_event SX_DEV_EVENT_POST_RESET (Some err)) s;
                (rc, post_reset_err) = post_reset_handler E err
            in (post_reset_err, s1))
      else (err, s))"

text \<open>
  Lines 640 to 647: the headers are restored for SwitchX. \<open>hca_header\<close> is \<open>None\<close>
  for the null pointer; it was allocated under the same test of the device, so that
  the buffer is there whenever it is needed.
\<close>

definition sx_reset_restore :: "env \<Rightarrow> bool \<Rightarrow> hca_header option \<Rightarrow> state \<Rightarrow> int \<times> state" where
  "sx_reset_restore E is_pre_reset_event hca_header s =
     (case (device s = SWITCHX_PCI_DEV_ID, hca_header) of
        (True, Some h) \<Rightarrow>
          (let (err, s1) = restore_headers_data E h s
           in sx_reset_out E is_pre_reset_event err s1)
      | _ \<Rightarrow> sx_reset_out E is_pre_reset_event 0 s)"

definition sx_reset :: "env \<Rightarrow> u8 \<Rightarrow> state \<Rightarrow> int \<times> state" where
  "sx_reset E perform_chip_reset s =
     (if \<not> dev_present s \<or> \<not> pdev_present s then (- ENODEV, s)
      else if \<not> kzalloc_ok E then (- ENOMEM, s)
      else (let (err, hca_header, s1) =
                  (if device s = SWITCHX_PCI_DEV_ID
                   then (if \<not> kmalloc_ok E then (- ENOMEM, None, s)
                         else (let (err, h, s1) = save_headers_data E s in (err, Some h, s1)))
                   else (0, None, s))
            in if err \<noteq> 0 then sx_reset_out E False err s1
               else (let s2 = emit Sx_cmd_use_polling s1;
                         s3 = reset_trigger_gate E s2
                     in if perform_chip_reset \<noteq> 0
                        then (let err = pre_reset_ret E;
                                  s4 = emit (Sx_core_dispatch_event SX_DEV_EVENT_PRE_RESET None) s3
                              in if err \<noteq> 0 then sx_reset_out E True err s4
                                 else (let (err, s5) = perform_dev_sw_reset E s4
                                       in if err \<noteq> 0 then sx_reset_out E True err s5
                                          else (let (j, s6) = read_jiffies E s5;
                                                    end = j + SX_RESET_TIMEOUT_JIFFIES (cfg E);
                                                    (vendor, s7) = poll_vendor_id E end s6
                                                in if vendor = 0xffff
                                                   then sx_reset_out E True (- ENODEV) s7
                                                   else sx_reset_restore E True hca_header s7)))
                        else (if debug_fw_trace_boot_flow s3 = 0
                              then (let (err, time_waited, s4) = wait_for_system_ready E 0 s3
                                    in if err \<noteq> 0 then sx_reset_out E False (- ENODEV) s4
                                       else sx_reset_restore E False hca_header s4)
                              else sx_reset_restore E False hca_header s3))))"

section \<open>Notions used to state the properties\<close>

text \<open>The test of the status word that \<open>__wait_for_system_ready\<close> makes.\<close>

definition ready :: "u32 \<Rightarrow> bool" where
  "ready v = (SX_SYSTEM_STATUS_ENABLED = (v AND SX_SYSTEM_STATUS_REG_MASK))"

text \<open>
  The clock of a state. \<open>sleep_then_read E n\<close> is what \<open>msleep(n)\<close> and the read
  of \<open>jiffies\<close> that follows it do to the clock. \<open>test_clock E c k\<close> is the clock
  at the \<open>k\<close>-th test of the deadline in a call of \<open>__wait_for_system_ready\<close>
  entered with the clock \<open>c\<close>, as long as no read has found the device ready: the
  clock is read for \<open>start\<close> and once more for \<open>end\<close>, which is test 0, and each
  later test comes after one \<open>msleep(1)\<close>.
\<close>

definition clock :: "state \<Rightarrow> u64 \<times> nat" where
  "clock s = (jiffies s, n_clock s)"

definition sleep_then_read :: "env \<Rightarrow> u32 \<Rightarrow> u64 \<times> nat \<Rightarrow> u64 \<times> nat" where
  "sleep_then_read E n c = tick E 0 (tick E (unat (msecs_to_jiffies (cfg E) n) + 1) c)"

definition test_clock :: "env \<Rightarrow> u64 \<times> nat \<Rightarrow> nat \<Rightarrow> u64 \<times> nat" where
  "test_clock E c k = (sleep_then_read E 1 ^^ k) (tick E 0 (tick E 0 c))"

text \<open>
  One round of the gate of \<open>sx_reset\<close>: the clock is read for the test of the
  deadline and \<open>msleep(100)\<close> follows.
\<close>

definition gate_round :: "env \<Rightarrow> state \<Rightarrow> state" where
  "gate_round E s = msleep E 100 (snd (read_jiffies E s))"

text \<open>The calls made between two states, and the same with the flag they were made under.\<close>

definition new_trace :: "state \<Rightarrow> state \<Rightarrow> (bool \<times> event) list" where
  "new_trace s s' = drop (length (trace s)) (trace s')"

definition new_events :: "state \<Rightarrow> state \<Rightarrow> event list" where
  "new_events s s' = map snd (drop (length (trace s)) (trace s'))"

text \<open>
  Reads of the status word, each followed by one sleep of a millisecond, but for the
  last read, which may stand alone.
\<close>

fun sleeps_between_reads :: "event list \<Rightarrow> bool" where
  "sleeps_between_reads [] = True"
| "sleeps_between_reads [Ioread32be v] = True"
| "sleeps_between_reads (Ioread32be v # Msleep n # es) = (n = 1 \<and> sleeps_between_reads es)"
| "sleeps_between_reads es = False"

text \<open>
  The call with which a reset trigger begins: the MRSR command of
  \<open>reset_dev_by_mrsr_reg\<close>, and the mapping of the reset register, the first call
  of \<open>__do_legacy_reset\<close>. The window of the in-progress flag over a trace: the
  calls before the trigger begins carry the value \<open>f0\<close> the flag had at the start,
  the first call of the trigger and every call after it carry \<open>True\<close>.
\<close>

definition begins_trigger :: "event \<Rightarrow> bool" where
  "begins_trigger e =
     (case e of Sx_ACCESS_REG_MRSR r \<Rightarrow> True | Ioremap off ok \<Rightarrow> off = SX_RESET_BASE | _ \<Rightarrow> False)"

fun flag_window :: "bool \<Rightarrow> (bool \<times> event) list \<Rightarrow> bool" where
  "flag_window f0 [] = True"
| "flag_window f0 ((f, e) # tr) =
     (if begins_trigger e then f \<and> list_all fst tr else f = f0 \<and> flag_window f0 tr)"

text \<open>The devices that are reset through the MRSR register.\<close>

definition modern_family :: "pci_dev_id \<Rightarrow> bool" where
  "modern_family d =
     (d \<in> {SPECTRUM_PCI_DEV_ID, SPECTRUM2_PCI_DEV_ID, SPECTRUM3_PCI_DEV_ID, SPECTRUM4_PCI_DEV_ID,
           SWITCH_IB_PCI_DEV_ID, SWITCH_IB2_PCI_DEV_ID,
           QUANTUM_PCI_DEV_ID, QUANTUM2_PCI_DEV_ID, QUANTUM3_PCI_DEV_ID})"

text \<open>
  Accesses to the configuration space are made one after the other until one fails:
  \<open>all_ok E k n\<close> says that the \<open>n\<close> accesses from the \<open>k\<close>-th on succeed, and
  \<open>attempts E k n\<close> is the number of accesses made when \<open>n\<close> are planned, the
  first failure being the last one made. \<open>ran_plan\<close> says of a run that it made the
  planned accesses in their order up to the first failure and returned \<open>-ENODEV\<close> if
  there was one.
\<close>

fun all_ok :: "env \<Rightarrow> nat \<Rightarrow> nat \<Rightarrow> bool" where
  "all_ok E k 0 = True"
| "all_ok E k (Suc n) = (fst (cfg_access E k) = 0 \<and> all_ok E (Suc k) n)"

fun attempts :: "env \<Rightarrow> nat \<Rightarrow> nat \<Rightarrow> nat" where
  "attempts E k 0 = 0"
| "attempts E k (Suc n) = (if fst (cfg_access E k) \<noteq> 0 then 1 else Suc (attempts E (Suc k) n))"

definition ran_plan :: "env \<Rightarrow> state \<Rightarrow> event list \<Rightarrow> int \<Rightarrow> state \<Rightarrow> bool" where
  "ran_plan E s plan err s' =
     (new_events s s' = take (attempts E (n_cfg s) (length plan)) plan \<and>
      err = (if all_ok E (n_cfg s) (length plan) then 0 else - ENODEV))"

text \<open>
  What the snapshot reads, and what it writes back: the two control words of the PCI
  Express capability if the device has one, the first sixteen words but the one at the
  byte offset \<open>PCI_COMMAND\<close>, and that word last.
\<close>

definition saved_indices :: "nat list" where
  "saved_indices = filter (\<lambda>i. i \<noteq> 22 \<and> i \<noteq> 23) [0..<64]"

definition save_plan :: "event list" where
  "save_plan = map (\<lambda>i. Pci_read_config_dword (i * 4)) saved_indices"

definition restore_plan :: "env \<Rightarrow> hca_header \<Rightarrow> event list" where
  "restore_plan E h =
     (if pcie_cap E \<noteq> 0
      then [Pci_write_config_word (pcie_cap E + PCI_EXP_DEVCTL (cfg E))
              (ucast (h ((pcie_cap E + PCI_EXP_DEVCTL (cfg E)) div 4))),
            Pci_write_config_word (pcie_cap E + PCI_EXP_LNKCTL (cfg E))
              (ucast (h ((pcie_cap E + PCI_EXP_LNKCTL (cfg E)) div 4)))]
      else []) @
     map (\<lambda>i. Pci_write_config_dword (i * 4) (h i))
       (filter (\<lambda>i. i * 4 \<noteq> PCI_COMMAND (cfg E)) [0..<16]) @
     [Pci_write_config_dword (PCI_COMMAND (cfg E)) (h (PCI_COMMAND (cfg E) div 4))]"

text \<open>
  The invariant of a run over a plan: the trace grows by the accesses made, the
  counter of accesses by their number, the flag stays, and the result tells whether
  all of them succeeded.
\<close>

definition did :: "env \<Rightarrow> state \<Rightarrow> event list \<Rightarrow> int \<Rightarrow> state \<Rightarrow> bool" where
  "did E s plan err s' =
     (trace s' = trace s @ map (Pair (dev_sw_rst_flow s)) (take (attempts E (n_cfg s) (length plan)) plan) \<and>
      n_cfg s' = n_cfg s + attempts E (n_cfg s) (length plan) \<and>
      dev_sw_rst_flow s' = dev_sw_rst_flow s \<and>
      err = (if all_ok E (n_cfg s) (length plan) then 0 else - ENODEV))"

text \<open>
  The notifications among the calls, and a stretch of the run that makes calls but
  dispatches no notification.
\<close>

definition is_dispatch :: "event \<Rightarrow> bool" where
  "is_dispatch e = (case e of Sx_core_dispatch_event k p \<Rightarrow> True | _ \<Rightarrow> False)"

definition extends_quietly :: "state \<Rightarrow> state \<Rightarrow> bool" where
  "extends_quietly s s' =
     (take (length (trace s)) (trace s') = trace s \<and>
      list_all (\<lambda>x. \<not> is_dispatch (snd x)) (new_trace s s'))"

text \<open>
  The state in which \<open>sx_reset\<close> leaves the gate, when the device is there, the
  payload is allocated and, for SwitchX, the snapshot is saved.
\<close>

definition after_gate :: "env \<Rightarrow> state \<Rightarrow> state" where
  "after_gate E s =
     reset_trigger_gate E (emit Sx_cmd_use_polling
       (if device s = SWITCHX_PCI_DEV_ID then snd (snd (save_headers_data E s)) else s))"

text \<open>
  The error code of the primary phase of a call that requests the chip reset: that of
  the pre-reset notification if it failed; else that of the reset operation, if it
  failed (where the fallback ran, it is the error code of the fallback); else
  \<open>-ENODEV\<close> if the vendor identifier has not come back when the two seconds
  are over; else, for SwitchX, the result of restoring the snapshot; else 0.
\<close>

definition primary_phase_error :: "env \<Rightarrow> state \<Rightarrow> int" where
  "primary_phase_error E s =
     (let s4 = emit (Sx_core_dispatch_event SX_DEV_EVENT_PRE_RESET None) (after_gate E s);
          (err, s5) = perform_dev_sw_reset E s4;
          (j, s6) = read_jiffies E s5;
          (vendor, s7) = poll_vendor_id E (j + SX_RESET_TIMEOUT_JIFFIES (cfg E)) s6
      in if pre_reset_ret E \<noteq> 0 then pre_reset_ret E
         else if err \<noteq> 0 then err
         else if vendor = 0xffff then - ENODEV
         else if device s = SWITCHX_PCI_DEV_ID
         then fst (restore_headers_data E (fst (snd (save_headers_data E s))) s7)
         else 0)"

text \<open>
  The result of a call that does not request the chip reset: \<open>-ENODEV\<close> if the
  readiness check with budget zero fails (the check is left out when
  \<open>debug_fw_trace_boot_flow\<close> is set); else, for SwitchX, the result of restoring
  the snapshot; else 0.
\<close>

definition readiness_only :: "env \<Rightarrow> state \<Rightarrow> int" where
  "readiness_only E s =
     (let s3 = after_gate E s;
          (err, time_waited, s4) =
            (if debug_fw_trace_boot_flow s3 = 0 then wait_for_system_ready E 0 s3
             else (0, None, s3))
      in if err \<noteq> 0 then - ENODEV
         else if device s = SWITCHX_PCI_DEV_ID
         then fst (restore_headers_data E (fst (snd (save_headers_data E s))) s4)
         else 0)"

section \<open>Concrete builds, devices and worlds\<close>

text \<open>
  The production build on a kernel with 1000 ticks a second; the offsets are those of
  the kernel's pci_regs.h. At this tick rate a jiffy is a millisecond:
  \<open>msecs_to_jiffies\<close> leaves the number as it is, but for one that is negative as an
  \<open>int\<close>, which means the longest timeout there is, \<open>MAX_JIFFY_OFFSET\<close>, that is
  \<open>(LONG_MAX >> 1) - 1\<close>; \<open>jiffies_to_msecs\<close> returns the number of jiffies as an
  \<open>unsigned int\<close>.
\<close>

definition MAX_JIFFY_OFFSET :: u64 where
  "MAX_JIFFY_OFFSET = 2 ^ 62 - 2"

definition linux_build :: build_config where
  "linux_build =
     \<lparr>INCREASED_TIMEOUT = False, PD_BU = False, QUANTUM3_BU = False, HZ = 1000,
      msecs_to_jiffies = (\<lambda>m. if sint m < 0 then MAX_JIFFY_OFFSET else ucast m),
      jiffies_to_msecs = ucast,
      PCI_VENDOR_ID = 0, PCI_COMMAND = 4, PCI_EXP_DEVCTL = 8, PCI_EXP_LNKCTL = 16\<rparr>"

definition palladium_build :: build_config where
  "palladium_build = linux_build\<lparr>PD_BU := True, QUANTUM3_BU := True\<rparr>"

text \<open>
  A world in which the status word is never the sentinel, every mapping and every
  configuration access succeeds, no sleep lasts longer than asked, the clock does not
  move between two reads and nobody touches the trigger; and a device at rest.
\<close>

definition env_idle :: env where
  "env_idle =
     \<lparr>cfg = linux_build,
      status_word = (\<lambda>k. 0), ioremap_ok = (\<lambda>k. True), cfg_access = (\<lambda>k. (0, 0)),
      ticks = (\<lambda>k. 0), trigger_write = (\<lambda>k. None), mrsr_ret = 0, pcie_cap = 0,
      kzalloc_ok = True, kmalloc_ok = True, pre_reset_ret = 0,
      post_reset_handler = (\<lambda>e. (0, e)), beyond_header = (\<lambda>i. 0)\<rparr>"

definition state0 :: "pci_dev_id \<Rightarrow> state" where
  "state0 d =
     \<lparr>dev_present = True, pdev_present = True, device = d, dev_sw_rst_flow = False,
      reset_trigger = 1, debug_fw_trace_boot_flow = 0, jiffies = 0, n_clock = 0,
      n_ioremap = 0, n_ioread = 0, n_cfg = 0, trace = []\<rparr>"

text \<open>A world in which the status word is the sentinel from the \<open>n\<close>-th read on.\<close>

definition env_ready_at :: "nat \<Rightarrow> env" where
  "env_ready_at n = env_idle\<lparr>status_word := (\<lambda>k. if k < n then 0 else 0x5E)\<rparr>"

text \<open>A world in which no register can be mapped.\<close>

definition env_no_mapping :: env where
  "env_no_mapping = env_idle\<lparr>ioremap_ok := (\<lambda>k. False)\<rparr>"

text \<open>
  A world in which the status word is always the sentinel and only the first
  mapping succeeds.
\<close>

definition env_second_map_fails :: env where
  "env_second_map_fails = (env_ready_at 0)\<lparr>ioremap_ok := (\<lambda>k. k = 0)\<rparr>"

text \<open>
  A world in which the reset takes effect: the status word is the sentinel at the
  first read, not at the second, and again from the third read on.
\<close>

definition env_reset_works :: env where
  "env_reset_works = env_idle\<lparr>status_word := (\<lambda>k. if k = 1 then 0 else 0x5E)\<rparr>"

text \<open>A world in which the configuration space answers with a vendor identifier.\<close>

definition env_switchx :: env where
  "env_switchx = env_idle\<lparr>cfg_access := (\<lambda>k. (0, 0x15B3))\<rparr>"

text \<open>A header whose word \<open>i\<close> holds \<open>256 + i\<close>.\<close>

definition header_example :: hca_header where
  "header_example i = of_nat (256 + i)"

text \<open>
  A world in which the reset takes effect, the configuration space answers, and a
  subscriber of the post-reset event replaces the error code by 7.
\<close>

definition env_override :: env where
  "env_override =
     env_reset_works\<lparr>cfg_access := (\<lambda>k. (0, 0x15B3)), post_reset_handler := (\<lambda>e. (0, 7))\<rparr>"

text \<open>A device whose reset trigger is not set.\<close>

definition state_unarmed :: state where
  "state_unarmed = (state0 SPECTRUM_PCI_DEV_ID)\<lparr>reset_trigger := 0\<rparr>"

text \<open>
  A world with a device that is ready, in which somebody sets the reset trigger during
  the third sleep of the gate: the clock is read once for the deadline of the gate, and
  then once before each sleep, so that the third sleep is the place number 6.
\<close>

definition env_trigger_third :: env where
  "env_trigger_third = (env_ready_at 0)\<lparr>trigger_write := (\<lambda>k. if k = 6 then Some 1 else None)\<rparr>"

text \<open>
  A world with a device that is ready, whose scheduler lets the first sleep of the
  gate, the place number 2, last ten seconds longer than asked.
\<close>

definition env_slow_scheduler :: env where
  "env_slow_scheduler = (env_ready_at 0)\<lparr>ticks := (\<lambda>k. if k = 2 then 10000 else 0)\<rparr>"

text \<open>
  A world with a device that is ready, in which eleven jiffies pass between the read
  of the status word and the read of \<open>jiffies\<close> that follows it in the first call
  of \<open>__wait_for_system_ready\<close>, the third place at which the clock moves.
\<close>

definition env_preempted :: env where
  "env_preempted = (env_ready_at 0)\<lparr>ticks := (\<lambda>k. if k = 2 then 11 else 0)\<rparr>"


section \<open>Properties\<close>

declare poll_status.simps [simp del]
declare poll_vendor_id.simps [simp del]
declare wait_reset_trigger.simps [simp del]

subsection \<open>The clock and the deadline\<close>

lemma sint_neg_iff: "(sint (w :: u64) < 0) = (9223372036854775808 \<le> unat w)"
proof -
  have b: "uint w < 18446744073709551616" using uint_bounded [of w] by simp
  have n: "0 \<le> uint w" by simp
  have "(sint w < 0) = bit (uint w) 63"
    by (simp add: sint_uint signed_take_bit_negative_iff)
  also have "\<dots> = odd (uint w div 9223372036854775808)" by (simp add: bit_iff_odd)
  also have "\<dots> = (9223372036854775808 \<le> uint w)"
  proof (cases "9223372036854775808 \<le> uint w")
    case True
    with b have "uint w div 9223372036854775808 = 1" by simp
    with True show ?thesis by simp
  next
    case False
    with n have "uint w div 9223372036854775808 = 0" by simp
    with False show ?thesis by simp
  qed
  also have "\<dots> = (9223372036854775808 \<le> unat w)"
    by (simp only: uint_nat) linarith
  finally show ?thesis .
qed

lemma time_before_step:
  fixes a e :: u64
  assumes d: "d < 9223372036854775808" and tb: "time_before (a + of_nat d) e"
  shows "unat (e - (a + of_nat d)) + d = unat (e - a)"
proof -
  define x where "x = e - a"
  define w :: u64 where "w = of_nat d"
  from d have uw: "unat w = d" unfolding w_def by (simp add: unat_of_nat)
  have e1: "e - (a + of_nat d) = x - w" by (simp add: x_def w_def)
  have e2: "a + of_nat d - e = w - x" by (simp add: x_def w_def)
  from tb have big: "9223372036854775808 \<le> unat (w - x)"
    by (simp add: time_before_def e2 sint_neg_iff)
  have le: "unat w \<le> unat x"
  proof (rule ccontr)
    assume "\<not> unat w \<le> unat x"
    then have "unat (w - x) = unat w - unat x" by (simp add: unat_sub_if')
    with big uw d show False by simp
  qed
  then have "unat (x - w) = unat x - unat w" by (simp add: unat_sub_if')
  with le uw show ?thesis unfolding e1 x_def by simp
qed

lemma not_time_before_step:
  fixes a :: u64
  assumes d: "d < 9223372036854775808"
  shows "\<not> time_before (a + of_nat d) a"
proof -
  from d have "unat (of_nat d :: u64) = d" by (simp add: unat_of_nat)
  with d show ?thesis by (simp add: time_before_def sint_neg_iff)
qed

lemma time_before_pos: "time_before a e \<Longrightarrow> 0 < unat (e - a)"
proof -
  assume "time_before a e"
  then have "a \<noteq> e" by (auto simp: time_before_def)
  then have "e - a \<noteq> 0" by simp
  then show ?thesis by (simp add: unat_gt_0)
qed

text \<open>
  A sleep and the read of the clock after it: the clock has moved by at least the
  length of the sleep and by less than \<open>2^63\<close> jiffies.
\<close>

lemma sleep_then_read_step:
  obtains d where "fst (sleep_then_read E n c) = fst c + of_nat d"
    "min (unat (msecs_to_jiffies (cfg E) n) + 1) MAX_STEP \<le> d" "d < 9223372036854775808"
    "snd (sleep_then_read E n c) = snd c + 2"
proof
  let ?d1 = "min (unat (msecs_to_jiffies (cfg E) n) + 1 + ticks E (snd c)) MAX_STEP"
  let ?d2 = "min (0 + ticks E (snd c + 1)) MAX_STEP"
  show "fst (sleep_then_read E n c) = fst c + of_nat (?d1 + ?d2)"
    by (simp add: sleep_then_read_def tick_def)
  show "min (unat (msecs_to_jiffies (cfg E) n) + 1) MAX_STEP \<le> ?d1 + ?d2"
    by (simp add: min_def)
  show "?d1 + ?d2 < 9223372036854775808"
    by (simp add: MAX_STEP_def min_def)
  show "snd (sleep_then_read E n c) = snd c + 2"
    by (simp add: sleep_then_read_def tick_def)
qed

subsection \<open>Fields of the state after a call\<close>

lemma elapse_fields:
  "clock (elapse E d s) = tick E d (clock s)"
  "jiffies (elapse E d s) = fst (tick E d (clock s))"
  "n_clock (elapse E d s) = n_clock s + 1"
  "dev_sw_rst_flow (elapse E d s) = dev_sw_rst_flow s"
  "device (elapse E d s) = device s"
  "pdev_present (elapse E d s) = pdev_present s"
  "dev_present (elapse E d s) = dev_present s"
  "reset_trigger (elapse E d s) = reset_trigger s"
  "debug_fw_trace_boot_flow (elapse E d s) = debug_fw_trace_boot_flow s"
  "n_ioremap (elapse E d s) = n_ioremap s"
  "n_ioread (elapse E d s) = n_ioread s"
  "n_cfg (elapse E d s) = n_cfg s"
  "trace (elapse E d s) = trace s"
  by (simp_all add: elapse_def tick_def clock_def)

lemma read_jiffies_eq: "read_jiffies E s = (fst (tick E 0 (clock s)), elapse E 0 s)"
  by (simp add: read_jiffies_def Let_def elapse_fields)

lemma msleep_fields:
  "clock (msleep E n s) = tick E (unat (msecs_to_jiffies (cfg E) n) + 1) (clock s)"
  "n_clock (msleep E n s) = n_clock s + 1"
  "dev_sw_rst_flow (msleep E n s) = dev_sw_rst_flow s"
  "device (msleep E n s) = device s"
  "pdev_present (msleep E n s) = pdev_present s"
  "dev_present (msleep E n s) = dev_present s"
  "reset_trigger (msleep E n s) =
     (case trigger_write E (n_clock s) of None \<Rightarrow> reset_trigger s | Some v \<Rightarrow> v)"
  "debug_fw_trace_boot_flow (msleep E n s) = debug_fw_trace_boot_flow s"
  "n_ioremap (msleep E n s) = n_ioremap s"
  "n_ioread (msleep E n s) = n_ioread s"
  "n_cfg (msleep E n s) = n_cfg s"
  "trace (msleep E n s) = trace s @ [(dev_sw_rst_flow s, Msleep (unat n))]"
  by (simp_all add: msleep_def emit_def elapse_def tick_def clock_def Let_def)

lemma emit_fields:
  "clock (emit e s) = clock s"
  "jiffies (emit e s) = jiffies s"
  "n_clock (emit e s) = n_clock s"
  "dev_sw_rst_flow (emit e s) = dev_sw_rst_flow s"
  "device (emit e s) = device s"
  "pdev_present (emit e s) = pdev_present s"
  "dev_present (emit e s) = dev_present s"
  "reset_trigger (emit e s) = reset_trigger s"
  "debug_fw_trace_boot_flow (emit e s) = debug_fw_trace_boot_flow s"
  "n_ioremap (emit e s) = n_ioremap s"
  "n_ioread (emit e s) = n_ioread s"
  "n_cfg (emit e s) = n_cfg s"
  "trace (emit e s) = trace s @ [(dev_sw_rst_flow s, e)]"
  by (simp_all add: emit_def clock_def)

lemma clock_update [simp]:
  "clock (s\<lparr>n_ioread := a\<rparr>) = clock s"
  "clock (s\<lparr>n_ioremap := b\<rparr>) = clock s"
  "clock (s\<lparr>n_cfg := c\<rparr>) = clock s"
  "clock (s\<lparr>dev_sw_rst_flow := f\<rparr>) = clock s"
  "clock (s\<lparr>reset_trigger := r\<rparr>) = clock s"
  by (simp_all add: clock_def)

lemma sleep_read_clock:
  "clock (elapse E 0 (msleep E n s)) = sleep_then_read E n (clock s)"
  by (simp add: elapse_fields msleep_fields sleep_then_read_def)

lemma sleeps_between_reads_no_other:
  "sleeps_between_reads es \<Longrightarrow> e \<in> set es \<Longrightarrow> (\<exists>v. e = Ioread32be v) \<or> e = Msleep 1"
  by (induction es rule: sleeps_between_reads.induct) auto

lemma poll_status_cases:
  assumes "poll_status E a b s = (ret, tw, s')"
  obtains
    (hit) "ready (status_word E (n_ioread s))" "ret = 0"
      "tw = Some (jiffies_to_msecs (cfg E) (jiffies s' - a))"
      "s' = elapse E 0 (emit (Ioread32be (status_word E (n_ioread s))) (s\<lparr>n_ioread := n_ioread s + 1\<rparr>))"
  | (again) "\<not> ready (status_word E (n_ioread s))"
      "time_before (fst (sleep_then_read E 1 (clock s))) b"
      "poll_status E a b (elapse E 0 (msleep E 1 (emit (Ioread32be (status_word E (n_ioread s))) (s\<lparr>n_ioread := n_ioread s + 1\<rparr>)))) = (ret, tw, s')"
  | (late) "\<not> ready (status_word E (n_ioread s))"
      "\<not> time_before (fst (sleep_then_read E 1 (clock s))) b"
      "ret = - ETIME" "tw = None"
      "s' = elapse E 0 (msleep E 1 (emit (Ioread32be (status_word E (n_ioread s))) (s\<lparr>n_ioread := n_ioread s + 1\<rparr>)))"
proof -
  let ?s1 = "emit (Ioread32be (status_word E (n_ioread s))) (s\<lparr>n_ioread := n_ioread s + 1\<rparr>)"
  have eq: "poll_status E a b s =
     (if ready (status_word E (n_ioread s))
      then (0, Some (jiffies_to_msecs (cfg E) (jiffies (elapse E 0 ?s1) - a)), elapse E 0 ?s1)
      else if time_before (fst (sleep_then_read E 1 (clock s))) b
      then poll_status E a b (elapse E 0 (msleep E 1 ?s1))
      else (- ETIME, None, elapse E 0 (msleep E 1 ?s1)))"
    by (subst poll_status.simps)
       (simp add: Let_def ready_def read_jiffies_eq elapse_fields msleep_fields emit_fields
          sleep_then_read_def)
  show ?thesis
  proof (cases "ready (status_word E (n_ioread s))")
    case True
    with assms eq have "ret = 0" "tw = Some (jiffies_to_msecs (cfg E) (jiffies s' - a))"
      "s' = elapse E 0 ?s1" by auto
    with True show ?thesis by (rule hit)
  next
    case nr: False
    show ?thesis
    proof (cases "time_before (fst (sleep_then_read E 1 (clock s))) b")
      case True
      with nr assms eq have "poll_status E a b (elapse E 0 (msleep E 1 ?s1)) = (ret, tw, s')"
        by simp
      with nr True show ?thesis by (rule again)
    next
      case False
      with nr assms eq have "ret = - ETIME" "tw = None" "s' = elapse E 0 (msleep E 1 ?s1)"
        by auto
      with nr False show ?thesis by (rule late)
    qed
  qed
qed

lemma poll_status_clock:
  "clock (elapse E 0 (msleep E 1 (emit e (s\<lparr>n_ioread := k\<rparr>)))) = sleep_then_read E 1 (clock s)"
  "n_ioread (elapse E 0 (msleep E 1 (emit e (s\<lparr>n_ioread := k\<rparr>)))) = k"
  by (simp_all add: elapse_fields msleep_fields emit_fields sleep_then_read_def)

lemma poll_status_ready_iff:
  "poll_status E start end s = (ret, tw, s') \<Longrightarrow>
     (ret = 0) =
       (\<exists>k. ready (status_word E (n_ioread s + k)) \<and>
            (\<forall>i. 1 \<le> i \<and> i \<le> k \<longrightarrow>
                 time_before (fst ((sleep_then_read E 1 ^^ i) (clock s))) end))"
proof (induction E start "end" s arbitrary: ret tw s' rule: poll_status.induct)
  case (1 E start "end" s)
  let ?v = "status_word E (n_ioread s)"
  let ?s1 = "emit (Ioread32be ?v) (s\<lparr>n_ioread := n_ioread s + 1\<rparr>)"
  let ?s3 = "elapse E 0 (msleep E 1 ?s1)"
  let ?f = "sleep_then_read E 1"
  let ?P = "\<lambda>c n k. ready (status_word E (n + k)) \<and>
            (\<forall>i. 1 \<le> i \<and> i \<le> k \<longrightarrow> time_before (fst ((?f ^^ i) c)) end)"
  have c3: "clock ?s3 = ?f (clock s)" and n3: "n_ioread ?s3 = Suc (n_ioread s)"
    by (simp_all add: poll_status_clock)
  from "1.prems" show ?case
  proof (cases rule: poll_status_cases)
    case hit
    from hit(1) have "?P (clock s) (n_ioread s) 0" by simp
    then have "\<exists>k. ?P (clock s) (n_ioread s) k" ..
    with hit(2) show ?thesis by simp
  next
    case again
    from again(1) have nr: "SX_SYSTEM_STATUS_ENABLED \<noteq> (?v AND SX_SYSTEM_STATUS_REG_MASK)"
      by (simp add: ready_def)
    have rj: "(fst (tick E 0 (clock (msleep E 1 ?s1))), ?s3) = read_jiffies E (msleep E 1 ?s1)"
      by (simp add: read_jiffies_eq)
    have tb: "time_before (fst (tick E 0 (clock (msleep E 1 ?s1)))) end"
      using again(2) by (simp add: msleep_fields emit_fields sleep_then_read_def)
    have ih: "(ret = 0) = (\<exists>k. ?P (clock ?s3) (n_ioread ?s3) k)"
      by (rule "1.IH" [OF refl refl nr refl refl rj tb again(3)])
    note ih' = ih [unfolded c3 n3]
    show ?thesis
    proof
      assume "ret = 0"
      with ih' obtain k where k: "ready (status_word E (Suc (n_ioread s) + k))"
        "\<forall>i. 1 \<le> i \<and> i \<le> k \<longrightarrow> time_before (fst ((?f ^^ i) (?f (clock s)))) end"
        by blast
      have "time_before (fst ((?f ^^ i) (clock s))) end" if i: "1 \<le> i" "i \<le> Suc k" for i
      proof (cases i)
        case 0
        with i show ?thesis by simp
      next
        case (Suc i')
        show ?thesis
        proof (cases "i' = 0")
          case True
          with Suc again(2) show ?thesis by simp
        next
          case False
          with Suc i k(2) have "time_before (fst ((?f ^^ i') (?f (clock s)))) end" by simp
          with Suc show ?thesis by (simp add: funpow_swap1)
        qed
      qed
      with k(1) have "?P (clock s) (n_ioread s) (Suc k)" by simp
      then show "\<exists>k. ?P (clock s) (n_ioread s) k" ..
    next
      assume "\<exists>k. ?P (clock s) (n_ioread s) k"
      then obtain k where k: "ready (status_word E (n_ioread s + k))"
        "\<forall>i. 1 \<le> i \<and> i \<le> k \<longrightarrow> time_before (fst ((?f ^^ i) (clock s))) end"
        by blast
      from again(1) k(1) obtain k' where k': "k = Suc k'" by (cases k) auto
      have "time_before (fst ((?f ^^ i) (?f (clock s)))) end" if i: "1 \<le> i" "i \<le> k'" for i
      proof -
        from i k' have "1 \<le> Suc i \<and> Suc i \<le> k" by simp
        with k(2) have "time_before (fst ((?f ^^ Suc i) (clock s))) end" by blast
        then show ?thesis by (simp add: funpow_swap1)
      qed
      with k(1) k' have "?P (?f (clock s)) (Suc (n_ioread s)) k'" by simp
      with ih' show "ret = 0" by blast
    qed
  next
    case late
    from late(3) have "ret \<noteq> 0" by (simp add: ETIME_def)
    moreover have "\<not> (\<exists>k. ?P (clock s) (n_ioread s) k)"
    proof
      assume "\<exists>k. ?P (clock s) (n_ioread s) k"
      then obtain k where k: "ready (status_word E (n_ioread s + k))"
        "\<forall>i. 1 \<le> i \<and> i \<le> k \<longrightarrow> time_before (fst ((?f ^^ i) (clock s))) end"
        by blast
      from late(1) k(1) have "1 \<le> (1::nat) \<and> 1 \<le> k" by (cases k) auto
      with k(2) have "time_before (fst ((?f ^^ 1) (clock s))) end" by blast
      with late(2) show False by simp
    qed
    ultimately show ?thesis by simp
  qed
qed

text \<open>
  A successful wait: the read that matched is the first one that could, and the time
  reported is taken from the clock read after it.
\<close>

lemma poll_status_hit:
  "poll_status E start end s = (ret, tw, s') \<Longrightarrow> ret = 0 \<Longrightarrow>
     \<exists>k. ready (status_word E (n_ioread s + k)) \<and>
         (\<forall>i<k. \<not> ready (status_word E (n_ioread s + i))) \<and>
         clock s' = tick E 0 ((sleep_then_read E 1 ^^ k) (clock s)) \<and>
         n_ioread s' = n_ioread s + k + 1 \<and>
         tw = Some (jiffies_to_msecs (cfg E)
                (fst (tick E 0 ((sleep_then_read E 1 ^^ k) (clock s))) - start))"
proof (induction E start "end" s arbitrary: ret tw s' rule: poll_status.induct)
  case (1 E start "end" s)
  let ?v = "status_word E (n_ioread s)"
  let ?s1 = "emit (Ioread32be ?v) (s\<lparr>n_ioread := n_ioread s + 1\<rparr>)"
  let ?s3 = "elapse E 0 (msleep E 1 ?s1)"
  let ?f = "sleep_then_read E 1"
  let ?Q = "\<lambda>c n k. ready (status_word E (n + k)) \<and>
         (\<forall>i<k. \<not> ready (status_word E (n + i))) \<and>
         clock s' = tick E 0 ((?f ^^ k) c) \<and>
         n_ioread s' = n + k + 1 \<and>
         tw = Some (jiffies_to_msecs (cfg E) (fst (tick E 0 ((?f ^^ k) c)) - start))"
  have c3: "clock ?s3 = ?f (clock s)" and n3: "n_ioread ?s3 = Suc (n_ioread s)"
    by (simp_all add: poll_status_clock)
  from "1.prems"(1) show ?case
  proof (cases rule: poll_status_cases)
    case hit
    have "clock s' = tick E 0 (clock s)" "n_ioread s' = n_ioread s + 1"
      "jiffies s' = fst (tick E 0 (clock s))"
      unfolding hit(4) by (simp_all add: elapse_fields emit_fields)
    with hit(1,3) have "?Q (clock s) (n_ioread s) 0" by simp
    then show ?thesis ..
  next
    case again
    from again(1) have nr: "SX_SYSTEM_STATUS_ENABLED \<noteq> (?v AND SX_SYSTEM_STATUS_REG_MASK)"
      by (simp add: ready_def)
    have rj: "(fst (tick E 0 (clock (msleep E 1 ?s1))), ?s3) = read_jiffies E (msleep E 1 ?s1)"
      by (simp add: read_jiffies_eq)
    have tb: "time_before (fst (tick E 0 (clock (msleep E 1 ?s1)))) end"
      using again(2) by (simp add: msleep_fields emit_fields sleep_then_read_def)
    have "\<exists>k. ?Q (clock ?s3) (n_ioread ?s3) k"
      by (rule "1.IH" [OF refl refl nr refl refl rj tb again(3) "1.prems"(2)])
    then obtain k where k: "?Q (?f (clock s)) (Suc (n_ioread s)) k" unfolding c3 n3 ..
    have "\<not> ready (status_word E (n_ioread s + i))" if "i < Suc k" for i
    proof (cases i)
      case 0
      with again(1) show ?thesis by simp
    next
      case (Suc i')
      with that k show ?thesis by simp
    qed
    with k have "?Q (clock s) (n_ioread s) (Suc k)" by (simp add: funpow_swap1)
    then show ?thesis ..
  next
    case late
    with "1.prems"(2) show ?thesis by (simp add: ETIME_def)
  qed
qed

lemma poll_status_effect:
  "poll_status E a b s = (ret, tw, s') \<Longrightarrow>
     dev_sw_rst_flow s' = dev_sw_rst_flow s \<and> device s' = device s \<and>
     pdev_present s' = pdev_present s \<and> dev_present s' = dev_present s \<and>
     debug_fw_trace_boot_flow s' = debug_fw_trace_boot_flow s \<and>
     n_ioremap s' = n_ioremap s \<and> n_cfg s' = n_cfg s \<and>
     (\<exists>es. trace s' = trace s @ map (Pair (dev_sw_rst_flow s)) es \<and> sleeps_between_reads es \<and> es \<noteq> []) \<and>
     (ret = 0 \<or> ret = - ETIME)"
proof (induction E a b s arbitrary: ret tw s' rule: poll_status.induct)
  case (1 E a b s)
  let ?v = "status_word E (n_ioread s)"
  let ?s1 = "emit (Ioread32be ?v) (s\<lparr>n_ioread := n_ioread s + 1\<rparr>)"
  let ?s3 = "elapse E 0 (msleep E 1 ?s1)"
  from "1.prems" show ?case
  proof (cases rule: poll_status_cases)
    case hit
    have "sleeps_between_reads [Ioread32be ?v]" by simp
    then have "\<exists>es. trace s' = trace s @ map (Pair (dev_sw_rst_flow s)) es \<and> sleeps_between_reads es \<and> es \<noteq> []"
      using hit(4) by (intro exI [of _ "[Ioread32be ?v]"]) (simp add: emit_fields elapse_fields)
    with hit show ?thesis by (simp add: emit_fields elapse_fields)
  next
    case again
    from again(1) have nr: "SX_SYSTEM_STATUS_ENABLED \<noteq> (?v AND SX_SYSTEM_STATUS_REG_MASK)"
      by (simp add: ready_def)
    have rj: "(fst (tick E 0 (clock (msleep E 1 ?s1))), ?s3) = read_jiffies E (msleep E 1 ?s1)"
      by (simp add: read_jiffies_eq)
    have tb: "time_before (fst (tick E 0 (clock (msleep E 1 ?s1)))) b"
      using again(2) by (simp add: msleep_fields emit_fields sleep_then_read_def)
    note ih = "1.IH" [OF refl refl nr refl refl rj tb again(3)]
    from ih obtain es where es: "trace s' = trace ?s3 @ map (Pair (dev_sw_rst_flow ?s3)) es"
      "sleeps_between_reads es" by blast
    have f2: "dev_sw_rst_flow ?s3 = dev_sw_rst_flow s"
      by (simp add: msleep_fields emit_fields elapse_fields)
    have t2: "trace ?s3 = trace s @ map (Pair (dev_sw_rst_flow s)) [Ioread32be ?v, Msleep 1]"
      by (simp add: msleep_fields emit_fields elapse_fields)
    have "trace s' = trace s @ map (Pair (dev_sw_rst_flow s)) (Ioread32be ?v # Msleep 1 # es)"
      using es(1) unfolding f2 t2 by simp
    moreover have "sleeps_between_reads (Ioread32be ?v # Msleep 1 # es)" using es(2) by simp
    ultimately have tr: "\<exists>es. trace s' = trace s @ map (Pair (dev_sw_rst_flow s)) es \<and> sleeps_between_reads es \<and> es \<noteq> []"
      by blast
    have fr: "device ?s3 = device s" "pdev_present ?s3 = pdev_present s"
      "dev_present ?s3 = dev_present s" "debug_fw_trace_boot_flow ?s3 = debug_fw_trace_boot_flow s"
      "n_ioremap ?s3 = n_ioremap s" "n_cfg ?s3 = n_cfg s"
      by (simp_all add: msleep_fields emit_fields elapse_fields)
    from ih tr show ?thesis unfolding f2 fr by blast
  next
    case late
    have "sleeps_between_reads [Ioread32be ?v, Msleep 1]" by simp
    moreover have "trace s' = trace s @ map (Pair (dev_sw_rst_flow s)) [Ioread32be ?v, Msleep 1]"
      unfolding late(5) by (simp add: msleep_fields emit_fields elapse_fields)
    ultimately have "\<exists>es. trace s' = trace s @ map (Pair (dev_sw_rst_flow s)) es \<and> sleeps_between_reads es \<and> es \<noteq> []"
      by blast
    with late show ?thesis by (simp add: msleep_fields emit_fields elapse_fields ETIME_def)
  qed
qed

lemma wait_cases:
  assumes "wait_for_system_ready E d s = (ret, tw, s')"
  obtains
    (nomap) "\<not> ioremap_ok E (n_ioremap s)" "ret = - ENOMEM" "tw = None"
      "s' = emit (Ioremap SX_SYSTEM_STATUS_REG_OFFSET False) (s\<lparr>n_ioremap := n_ioremap s + 1\<rparr>)"
  | (mapped) s4 where "ioremap_ok E (n_ioremap s)"
      "poll_status E (fst (tick E 0 (clock s)))
         (fst (tick E 0 (tick E 0 (clock s))) + msecs_to_jiffies (cfg E) d)
         (emit (Printk_wait_for_reset d)
            (elapse E 0 (elapse E 0
               (emit (Ioremap SX_SYSTEM_STATUS_REG_OFFSET True) (s\<lparr>n_ioremap := n_ioremap s + 1\<rparr>)))))
       = (ret, tw, s4)"
      "s' = emit (Iounmap SX_SYSTEM_STATUS_REG_OFFSET) s4"
proof (cases "ioremap_ok E (n_ioremap s)")
  case False
  with assms have "ret = - ENOMEM" "tw = None"
    "s' = emit (Ioremap SX_SYSTEM_STATUS_REG_OFFSET False) (s\<lparr>n_ioremap := n_ioremap s + 1\<rparr>)"
    by (simp_all add: wait_for_system_ready_def Let_def)
  with False show ?thesis by (rule nomap)
next
  case True
  let ?s0 = "emit (Ioremap SX_SYSTEM_STATUS_REG_OFFSET True) (s\<lparr>n_ioremap := n_ioremap s + 1\<rparr>)"
  let ?p = "poll_status E (fst (tick E 0 (clock s)))
         (fst (tick E 0 (tick E 0 (clock s))) + msecs_to_jiffies (cfg E) d)
         (emit (Printk_wait_for_reset d) (elapse E 0 (elapse E 0 ?s0)))"
  have eq: "wait_for_system_ready E d s =
      (fst ?p, fst (snd ?p), emit (Iounmap SX_SYSTEM_STATUS_REG_OFFSET) (snd (snd ?p)))"
    using True
    by (simp add: wait_for_system_ready_def Let_def read_jiffies_eq elapse_fields emit_fields
        split_beta)
  from assms have "(fst ?p, fst (snd ?p), emit (Iounmap SX_SYSTEM_STATUS_REG_OFFSET) (snd (snd ?p)))
      = (ret, tw, s')" by (simp only: eq)
  then have r: "fst ?p = ret" "fst (snd ?p) = tw"
    "s' = emit (Iounmap SX_SYSTEM_STATUS_REG_OFFSET) (snd (snd ?p))"
    by (auto simp only: prod.inject)
  have "?p = (fst ?p, fst (snd ?p), snd (snd ?p))" by (simp only: prod.collapse)
  then have "?p = (ret, tw, snd (snd ?p))" by (simp only: r(1,2))
  with True show ?thesis using r(3) by (rule mapped)
qed

lemma new_events_append:
  "trace s' = trace s @ map (Pair f) es \<Longrightarrow> new_events s s' = es"
  by (simp add: new_events_def comp_def)

subsection \<open>Device Reset Policy\<close>

text \<open>
  Claim C6, as the code has it. In a build that defines both \<open>PD_BU\<close> and
  \<open>QUANTUM3_BU\<close> the duration is 1 200 000 ms for every device. In every other build
  it is 15 000 ms for the three Quantum devices, 900 000 ms for Spectrum-2, Spectrum-3
  and Spectrum-4, and for every other device, supported or not, the default of the
  build: 5 000 ms, or 1 500 000 ms with \<open>INCREASED_TIMEOUT\<close>. The function is a pure
  function of the build and the device identifier: it changes no state and has no
  error result.
\<close>

theorem get_chip_reset_duration_table:
  "get_chip_reset_duration B s =
     (if PD_BU B \<and> QUANTUM3_BU B then 1200000
      else if device s \<in> {QUANTUM_PCI_DEV_ID, QUANTUM2_PCI_DEV_ID, QUANTUM3_PCI_DEV_ID} then 15000
      else if device s \<in> {SPECTRUM2_PCI_DEV_ID, SPECTRUM3_PCI_DEV_ID, SPECTRUM4_PCI_DEV_ID} then 900000
      else if INCREASED_TIMEOUT B then 1500000 else 5000)"
  by (cases "device s") (simp_all add: get_chip_reset_duration_def SX_SW_RESET_TIMEOUT_MSECS_def)

text \<open>
  Claim C6 as it is written fails in the Palladium build: a Quantum device gets
  1 200 000 ms there, not 15 000 ms.
\<close>

theorem get_chip_reset_duration_palladium:
  "get_chip_reset_duration palladium_build (state0 QUANTUM_PCI_DEV_ID) = 1200000 \<and>
   get_chip_reset_duration palladium_build (state0 QUANTUM_PCI_DEV_ID) \<noteq> 15000"
  by (simp add: get_chip_reset_duration_def palladium_build_def linux_build_def state0_def)

subsection \<open>Status Poller\<close>

lemmas eval_defs =
  wait_for_system_ready_def poll_status.simps Let_def emit_def msleep_def elapse_def tick_def
  read_jiffies_def time_before_def MAX_STEP_def MAX_JIFFY_OFFSET_def
  SX_SYSTEM_STATUS_ENABLED_def SX_SYSTEM_STATUS_REG_MASK_def
  env_ready_at_def env_idle_def linux_build_def state0_def get_chip_reset_duration_def
  SX_SW_RESET_TIMEOUT_MSECS_def

text \<open>
  Claim C4, as the code has it. With a budget of zero, which \<open>msecs_to_jiffies\<close>
  turns into zero jiffies, \<open>__wait_for_system_ready\<close> reads the status word exactly
  once if the register can be mapped. If the low byte of that word is the sentinel
  \<open>0x5E\<close>, it returns 0 and has not slept. If not, it sleeps one millisecond once,
  reads no second time and returns \<open>-ETIME\<close>. If the register cannot be mapped, it
  reads nothing and returns \<open>-ENOMEM\<close>.
\<close>

theorem wait_for_system_ready_zero_budget:
  assumes w: "wait_for_system_ready E 0 s = (ret, tw, s')"
    and z: "msecs_to_jiffies (cfg E) 0 = 0"
  shows "(if \<not> ioremap_ok E (n_ioremap s)
      then ret = - ENOMEM \<and> new_events s s' = [Ioremap SX_SYSTEM_STATUS_REG_OFFSET False]
      else if ready (status_word E (n_ioread s))
      then ret = 0 \<and>
           new_events s s' =
             [Ioremap SX_SYSTEM_STATUS_REG_OFFSET True, Printk_wait_for_reset 0,
              Ioread32be (status_word E (n_ioread s)), Iounmap SX_SYSTEM_STATUS_REG_OFFSET]
      else ret = - ETIME \<and>
           new_events s s' =
             [Ioremap SX_SYSTEM_STATUS_REG_OFFSET True, Printk_wait_for_reset 0,
              Ioread32be (status_word E (n_ioread s)), Msleep 1,
              Iounmap SX_SYSTEM_STATUS_REG_OFFSET])"
  using w
proof (cases rule: wait_cases)
  case nomap
  then show ?thesis by (simp add: new_events_def emit_fields)
next
  case (mapped s4)
  let ?s3 = "emit (Printk_wait_for_reset 0)
            (elapse E 0 (elapse E 0
               (emit (Ioremap SX_SYSTEM_STATUS_REG_OFFSET True) (s\<lparr>n_ioremap := n_ioremap s + 1\<rparr>))))"
  have n3: "n_ioread ?s3 = n_ioread s" and c3: "clock ?s3 = tick E 0 (tick E 0 (clock s))"
    by (simp_all add: emit_fields elapse_fields)
  from mapped(2) show ?thesis
  proof (cases rule: poll_status_cases)
    case hit
    with mapped(1,3) show ?thesis
      by (simp add: new_events_def emit_fields elapse_fields)
  next
    case again
    let ?c = "tick E 0 (tick E 0 (clock s))"
    obtain d where d: "fst (sleep_then_read E 1 ?c) = fst ?c + of_nat d"
      "d < 9223372036854775808"
      by (rule sleep_then_read_step)
    from again(2) [unfolded c3 z] have "time_before (fst ?c + of_nat d) (fst ?c)"
      by (simp add: d(1))
    with not_time_before_step [OF d(2)] have False by blast
    then show ?thesis ..
  next
    case late
    with mapped(1,3) show ?thesis
      by (simp add: new_events_def emit_fields msleep_fields elapse_fields)
  qed
qed

theorem wait_for_system_ready_zero_budget_witness:
  "msecs_to_jiffies (cfg env_idle) 0 = 0 \<and>
   fst (wait_for_system_ready env_idle 0 (state0 SPECTRUM_PCI_DEV_ID)) = - ETIME \<and>
   new_events (state0 SPECTRUM_PCI_DEV_ID)
     (snd (snd (wait_for_system_ready env_idle 0 (state0 SPECTRUM_PCI_DEV_ID)))) =
     [Ioremap SX_SYSTEM_STATUS_REG_OFFSET True, Printk_wait_for_reset 0,
      Ioread32be 0, Msleep 1, Iounmap SX_SYSTEM_STATUS_REG_OFFSET]"
proof -
  let ?w = "wait_for_system_ready env_idle 0 (state0 SPECTRUM_PCI_DEV_ID)"
  have z: "msecs_to_jiffies (cfg env_idle) 0 = 0" by (simp add: env_idle_def linux_build_def)
  have eq: "?w = (fst ?w, fst (snd ?w), snd (snd ?w))" by simp
  from wait_for_system_ready_zero_budget [OF eq z] z
  show ?thesis
    by (simp add: env_idle_def linux_build_def state0_def ready_def SX_SYSTEM_STATUS_ENABLED_def
        SX_SYSTEM_STATUS_REG_MASK_def)
qed

text \<open>
  Claim C4 as it is written fails where the status word is not the sentinel: the
  call with budget zero returns \<open>-ETIME\<close> after one \<open>msleep(1)\<close>.
\<close>

theorem wait_zero_budget_sleeps:
  "fst (wait_for_system_ready env_idle 0 (state0 SPECTRUM_PCI_DEV_ID)) = - ETIME \<and>
   Msleep 1 \<in> set (new_events (state0 SPECTRUM_PCI_DEV_ID)
     (snd (snd (wait_for_system_ready env_idle 0 (state0 SPECTRUM_PCI_DEV_ID)))))"
  by (simp add: eval_defs new_events_def)

text \<open>
  Claim C5, as the code has it, for every budget and every kernel. The deadline
  \<open>end\<close> is the clock at test 0 plus the jiffies of the budget. If the status register
  can be mapped, the result is 0 or \<open>-ETIME\<close>; it is 0 exactly if the low byte of
  the status word is the sentinel at the first read, or at a later read such that
  every test of the deadline made before it found the clock before \<open>end\<close>. The
  elapsed milliseconds reported with a 0 are those that \<open>jiffies_to_msecs\<close> makes of
  the jiffies between the first read of the clock and the read that follows the first
  status word with the sentinel; nothing bounds them by the budget. The calls made are
  the mapping, the log line, reads with one \<open>msleep(1)\<close> after each read that did not
  see the sentinel, and the unmapping. If the register cannot be mapped, the result is
  \<open>-ENOMEM\<close> and nothing is read.
\<close>

theorem wait_for_system_ready_budget:
  assumes w: "wait_for_system_ready E budget s = (ret, tw, s')"
  shows "if ioremap_ok E (n_ioremap s)
     then (ret = 0 \<or> ret = - ETIME) \<and>
          (ret = 0) =
            (\<exists>k. ready (status_word E (n_ioread s + k)) \<and>
                 (\<forall>i. 1 \<le> i \<and> i \<le> k \<longrightarrow>
                      time_before (fst (test_clock E (clock s) i))
                        (fst (test_clock E (clock s) 0) + msecs_to_jiffies (cfg E) budget))) \<and>
          (ret = 0 \<longrightarrow>
            (\<exists>k. ready (status_word E (n_ioread s + k)) \<and>
                 (\<forall>i<k. \<not> ready (status_word E (n_ioread s + i))) \<and>
                 tw = Some (jiffies_to_msecs (cfg E)
                        (fst (tick E 0 (test_clock E (clock s) k)) - fst (tick E 0 (clock s)))))) \<and>
          (\<exists>es. new_events s s' =
                  [Ioremap SX_SYSTEM_STATUS_REG_OFFSET True, Printk_wait_for_reset budget] @ es @
                  [Iounmap SX_SYSTEM_STATUS_REG_OFFSET] \<and>
                sleeps_between_reads es)
     else ret = - ENOMEM \<and> tw = None \<and>
          new_events s s' = [Ioremap SX_SYSTEM_STATUS_REG_OFFSET False]"
  using w
proof (cases rule: wait_cases)
  case nomap
  then show ?thesis by (simp add: new_events_def emit_fields)
next
  case (mapped s4)
  let ?s0 = "emit (Ioremap SX_SYSTEM_STATUS_REG_OFFSET True) (s\<lparr>n_ioremap := n_ioremap s + 1\<rparr>)"
  let ?s3 = "emit (Printk_wait_for_reset budget) (elapse E 0 (elapse E 0 ?s0))"
  let ?end = "fst (test_clock E (clock s) 0) + msecs_to_jiffies (cfg E) budget"
  have s3: "n_ioread ?s3 = n_ioread s" "clock ?s3 = tick E 0 (tick E 0 (clock s))"
    "dev_sw_rst_flow ?s3 = dev_sw_rst_flow s"
    "trace ?s3 = trace s @ map (Pair (dev_sw_rst_flow s))
       [Ioremap SX_SYSTEM_STATUS_REG_OFFSET True, Printk_wait_for_reset budget]"
    by (simp_all add: emit_fields elapse_fields)
  have tc: "(sleep_then_read E 1 ^^ i) (tick E 0 (tick E 0 (clock s))) = test_clock E (clock s) i"
    for i by (simp add: test_clock_def)
  have e0: "fst (tick E 0 (tick E 0 (clock s))) = fst (test_clock E (clock s) 0)"
    by (simp add: test_clock_def)
  note iff = poll_status_ready_iff [OF mapped(2), unfolded s3 tc e0]
  note eff = poll_status_effect [OF mapped(2), unfolded s3]
  from eff obtain es where es:
    "trace s4 = (trace s @ map (Pair (dev_sw_rst_flow s))
       [Ioremap SX_SYSTEM_STATUS_REG_OFFSET True, Printk_wait_for_reset budget]) @
       map (Pair (dev_sw_rst_flow s)) es" "sleeps_between_reads es"
    by blast
  from eff have f2: "dev_sw_rst_flow s4 = dev_sw_rst_flow s" by blast
  have "trace s' = trace s @ map (Pair (dev_sw_rst_flow s))
     ([Ioremap SX_SYSTEM_STATUS_REG_OFFSET True, Printk_wait_for_reset budget] @ es @
      [Iounmap SX_SYSTEM_STATUS_REG_OFFSET])"
    unfolding mapped(3) by (simp add: emit_fields es(1) f2)
  then have ev: "new_events s s' =
     [Ioremap SX_SYSTEM_STATUS_REG_OFFSET True, Printk_wait_for_reset budget] @ es @
      [Iounmap SX_SYSTEM_STATUS_REG_OFFSET]"
    by (rule new_events_append)
  have el: "\<exists>k. ready (status_word E (n_ioread s + k)) \<and>
                 (\<forall>i<k. \<not> ready (status_word E (n_ioread s + i))) \<and>
                 tw = Some (jiffies_to_msecs (cfg E)
                        (fst (tick E 0 (test_clock E (clock s) k)) - fst (tick E 0 (clock s))))"
    if "ret = 0"
    using poll_status_hit [OF mapped(2) that, unfolded s3 tc] by blast
  from eff have "ret = 0 \<or> ret = - ETIME" by blast
  with mapped(1) iff el ev es(2) show ?thesis by auto
qed

theorem wait_for_system_ready_budget_witness:
  "ioremap_ok (env_ready_at 2) (n_ioremap (state0 SPECTRUM_PCI_DEV_ID)) \<and>
   fst (wait_for_system_ready (env_ready_at 2) 10 (state0 SPECTRUM_PCI_DEV_ID)) = 0 \<and>
   (\<exists>k. ready (status_word (env_ready_at 2) (n_ioread (state0 SPECTRUM_PCI_DEV_ID) + k)) \<and>
        (\<forall>i<k. \<not> ready (status_word (env_ready_at 2) (n_ioread (state0 SPECTRUM_PCI_DEV_ID) + i))) \<and>
        fst (snd (wait_for_system_ready (env_ready_at 2) 10 (state0 SPECTRUM_PCI_DEV_ID))) =
          Some (jiffies_to_msecs (cfg (env_ready_at 2))
            (fst (tick (env_ready_at 2) 0
                    (test_clock (env_ready_at 2) (clock (state0 SPECTRUM_PCI_DEV_ID)) k)) -
             fst (tick (env_ready_at 2) 0 (clock (state0 SPECTRUM_PCI_DEV_ID))))))"
proof -
  let ?w = "wait_for_system_ready (env_ready_at 2) 10 (state0 SPECTRUM_PCI_DEV_ID)"
  have m: "ioremap_ok (env_ready_at 2) (n_ioremap (state0 SPECTRUM_PCI_DEV_ID))"
    by (simp add: env_ready_at_def env_idle_def linux_build_def)
  have r: "fst ?w = 0" by (simp add: eval_defs)
  have eq: "?w = (fst ?w, fst (snd ?w), snd (snd ?w))" by simp
  from wait_for_system_ready_budget [OF eq] m r
  show ?thesis by simp
qed

text \<open>
  Claim C5 as it is written fails where time passes between the read of the status
  word and the read of \<open>jiffies\<close> from which the elapsed time is taken: here the
  budget is 10 ms, the device is ready at the first read, and the call returns 0 with
  11 elapsed milliseconds.
\<close>

theorem wait_elapsed_exceeds_budget:
  "fst (wait_for_system_ready env_preempted 10 (state0 SPECTRUM_PCI_DEV_ID)) = 0 \<and>
   fst (snd (wait_for_system_ready env_preempted 10 (state0 SPECTRUM_PCI_DEV_ID))) = Some 11 \<and>
   \<not> unat (11 :: u32) \<le> unat (10 :: u32)"
  by (simp add: eval_defs env_preempted_def)

lemma sleeps_between_reads_quiet:
  "sleeps_between_reads es \<Longrightarrow> e \<in> set es \<Longrightarrow> \<not> begins_trigger e \<and> (\<forall>b. e \<noteq> Printk_wait_for_reset b)"
  by (drule (1) sleeps_between_reads_no_other) (auto simp: begins_trigger_def)

lemma wait_effect:
  assumes "wait_for_system_ready E d s = (ret, tw, s')"
  shows "dev_sw_rst_flow s' = dev_sw_rst_flow s \<and> device s' = device s \<and>
     pdev_present s' = pdev_present s \<and> dev_present s' = dev_present s \<and>
     debug_fw_trace_boot_flow s' = debug_fw_trace_boot_flow s \<and>
     n_ioremap s' = n_ioremap s + 1 \<and> n_cfg s' = n_cfg s \<and>
     (ret = 0 \<or> ret = - ETIME \<or> ret = - ENOMEM) \<and>
     (\<exists>es. trace s' = trace s @ map (Pair (dev_sw_rst_flow s)) es \<and>
           (\<forall>e \<in> set es. \<not> begins_trigger e) \<and>
           (\<forall>b. Printk_wait_for_reset b \<in> set es \<longrightarrow> b = d))"
  using assms
proof (cases rule: wait_cases)
  case nomap
  have "trace s' = trace s @ map (Pair (dev_sw_rst_flow s)) [Ioremap SX_SYSTEM_STATUS_REG_OFFSET False]"
    unfolding nomap(4) by (simp add: emit_fields)
  moreover have "\<forall>e \<in> set [Ioremap SX_SYSTEM_STATUS_REG_OFFSET False]. \<not> begins_trigger e"
    by (simp add: begins_trigger_def SX_SYSTEM_STATUS_REG_OFFSET_def SX_RESET_BASE_def)
  moreover have "\<forall>b. Printk_wait_for_reset b \<in> set [Ioremap SX_SYSTEM_STATUS_REG_OFFSET False] \<longrightarrow> b = d"
    by simp
  ultimately have "\<exists>es. trace s' = trace s @ map (Pair (dev_sw_rst_flow s)) es \<and>
           (\<forall>e \<in> set es. \<not> begins_trigger e) \<and>
           (\<forall>b. Printk_wait_for_reset b \<in> set es \<longrightarrow> b = d)"
    by blast
  with nomap show ?thesis by (simp add: emit_fields)
next
  case (mapped s4)
  let ?pre = "[Ioremap SX_SYSTEM_STATUS_REG_OFFSET True, Printk_wait_for_reset d]"
  let ?s1 = "emit (Printk_wait_for_reset d)
            (elapse E 0 (elapse E 0
               (emit (Ioremap SX_SYSTEM_STATUS_REG_OFFSET True) (s\<lparr>n_ioremap := n_ioremap s + 1\<rparr>))))"
  have s1: "dev_sw_rst_flow ?s1 = dev_sw_rst_flow s" "device ?s1 = device s"
    "pdev_present ?s1 = pdev_present s" "dev_present ?s1 = dev_present s"
    "debug_fw_trace_boot_flow ?s1 = debug_fw_trace_boot_flow s"
    "n_ioremap ?s1 = n_ioremap s + 1" "n_cfg ?s1 = n_cfg s"
    "trace ?s1 = trace s @ map (Pair (dev_sw_rst_flow s)) ?pre"
    by (simp_all add: emit_fields elapse_fields)
  note eff = poll_status_effect [OF mapped(2), unfolded s1]
  from eff obtain es where es:
    "trace s4 = (trace s @ map (Pair (dev_sw_rst_flow s)) ?pre) @ map (Pair (dev_sw_rst_flow s)) es"
    "sleeps_between_reads es"
    by blast
  from eff have f2: "dev_sw_rst_flow s4 = dev_sw_rst_flow s" by blast
  let ?all = "?pre @ es @ [Iounmap SX_SYSTEM_STATUS_REG_OFFSET]"
  have "trace s' = trace s @ map (Pair (dev_sw_rst_flow s)) ?all"
    unfolding mapped(3) by (simp add: emit_fields es(1) f2)
  moreover have "\<forall>e \<in> set ?all. \<not> begins_trigger e"
    using sleeps_between_reads_quiet [OF es(2)] by (auto simp: begins_trigger_def SX_SYSTEM_STATUS_REG_OFFSET_def SX_RESET_BASE_def)
  moreover have "\<forall>b. Printk_wait_for_reset b \<in> set ?all \<longrightarrow> b = d"
    using sleeps_between_reads_quiet [OF es(2)] by auto
  ultimately have ex: "\<exists>es. trace s' = trace s @ map (Pair (dev_sw_rst_flow s)) es \<and>
           (\<forall>e \<in> set es. \<not> begins_trigger e) \<and>
           (\<forall>b. Printk_wait_for_reset b \<in> set es \<longrightarrow> b = d)"
    by blast
  from eff mapped(3) have "dev_sw_rst_flow s' = dev_sw_rst_flow s \<and> device s' = device s \<and>
     pdev_present s' = pdev_present s \<and> dev_present s' = dev_present s \<and>
     debug_fw_trace_boot_flow s' = debug_fw_trace_boot_flow s \<and>
     n_ioremap s' = n_ioremap s + 1 \<and> n_cfg s' = n_cfg s \<and>
     (ret = 0 \<or> ret = - ETIME \<or> ret = - ENOMEM)"
    by (auto simp: emit_fields)
  with ex show ?thesis by blast
qed

lemma do_legacy_reset_effect:
  assumes "do_legacy_reset E s = (err, s')"
  shows "dev_sw_rst_flow s' = dev_sw_rst_flow s \<and> device s' = device s \<and>
     pdev_present s' = pdev_present s \<and> n_cfg s' = n_cfg s \<and>
     (if ioremap_ok E (n_ioremap s)
      then err = 0 \<and>
           trace s' = trace s @ map (Pair (dev_sw_rst_flow s))
             [Ioremap SX_RESET_BASE True, Writel SX_RESET_VALUE, Iounmap SX_RESET_BASE,
              Msleep (if INCREASED_TIMEOUT (cfg E) then 180000 else 3000)]
      else err = - ENOMEM \<and>
           trace s' = trace s @ map (Pair (dev_sw_rst_flow s)) [Ioremap SX_RESET_BASE False])"
  using assms
  by (auto simp: do_legacy_reset_def Let_def emit_fields msleep_fields split: if_splits)

lemma wait_nomap:
  "\<not> ioremap_ok E (n_ioremap s) \<Longrightarrow>
     wait_for_system_ready E d s =
       (- ENOMEM, None,
        emit (Ioremap SX_SYSTEM_STATUS_REG_OFFSET False) (s\<lparr>n_ioremap := n_ioremap s + 1\<rparr>))"
  by (simp add: wait_for_system_ready_def Let_def)


lemma sdk_sx_reset_reached_check:
  assumes pre: "wait_for_system_ready E (get_chip_reset_duration (cfg E) s) s = (0, tw, s1)"
    and mrsr: "mrsr_ret E = 0"
  shows "sdk_sx_reset E s =
     (let (err, time_waited, s4) =
            wait_for_system_ready E 0 (emit (Sx_ACCESS_REG_MRSR 0) (s1\<lparr>dev_sw_rst_flow := True\<rparr>))
      in if err \<noteq> - ETIME then out_dev_sw_rst_flow (- EFAULT) s4
         else (let (err, time_waited, s5) =
                     wait_for_system_ready E (get_chip_reset_duration (cfg E) s) s4
               in out_dev_sw_rst_flow err s5))"
  by (simp add: sdk_sx_reset_def Let_def pre mrsr reset_dev_by_mrsr_reg_def)

subsection \<open>The register-protocol executor\<close>

text \<open>
  Claim C10. Under the same two conditions, every result of the check with budget
  zero other than \<open>-ETIME\<close> makes \<open>sdk_sx_reset\<close> return \<open>-EFAULT\<close>. In
  particular, when the status register cannot be mapped for the check, the poller
  returns \<open>-ENOMEM\<close> and \<open>sdk_sx_reset\<close> returns \<open>-EFAULT\<close> instead of it.
\<close>

theorem sdk_sx_reset_zero_check_fault:
  assumes pre: "wait_for_system_ready E (get_chip_reset_duration (cfg E) s) s = (0, tw, s1)"
    and mrsr: "mrsr_ret E = 0"
  shows "(fst (wait_for_system_ready E 0 (emit (Sx_ACCESS_REG_MRSR 0) (s1\<lparr>dev_sw_rst_flow := True\<rparr>)))
            \<noteq> - ETIME
          \<longrightarrow> fst (sdk_sx_reset E s) = - EFAULT) \<and>
         (\<not> ioremap_ok E (n_ioremap s1)
          \<longrightarrow> fst (wait_for_system_ready E 0 (emit (Sx_ACCESS_REG_MRSR 0) (s1\<lparr>dev_sw_rst_flow := True\<rparr>)))
                = - ENOMEM \<and>
              fst (sdk_sx_reset E s) = - EFAULT \<and> fst (sdk_sx_reset E s) \<noteq> - ENOMEM)"
proof -
  have ne: "- ENOMEM \<noteq> - ETIME" "- EFAULT \<noteq> - ENOMEM" by (simp_all add: ENOMEM_def ETIME_def EFAULT_def)
  have a: "fst (sdk_sx_reset E s) = - EFAULT"
    if "fst (wait_for_system_ready E 0 (emit (Sx_ACCESS_REG_MRSR 0) (s1\<lparr>dev_sw_rst_flow := True\<rparr>))) \<noteq> - ETIME"
    using that
    by (cases "wait_for_system_ready E 0 (emit (Sx_ACCESS_REG_MRSR 0) (s1\<lparr>dev_sw_rst_flow := True\<rparr>))")
       (simp add: sdk_sx_reset_reached_check [OF pre mrsr] Let_def out_dev_sw_rst_flow_def)
  have b: "fst (wait_for_system_ready E 0 (emit (Sx_ACCESS_REG_MRSR 0) (s1\<lparr>dev_sw_rst_flow := True\<rparr>))) = - ENOMEM"
    if "\<not> ioremap_ok E (n_ioremap s1)"
    using that by (simp add: wait_nomap emit_fields)
  from a b ne show ?thesis by simp
qed

theorem sdk_sx_reset_zero_check_fault_witness:
  "fst (wait_for_system_ready env_second_map_fails
          (get_chip_reset_duration (cfg env_second_map_fails) (state0 SPECTRUM_PCI_DEV_ID))
          (state0 SPECTRUM_PCI_DEV_ID)) = 0 \<and>
   mrsr_ret env_second_map_fails = 0 \<and>
   fst (sdk_sx_reset env_second_map_fails (state0 SPECTRUM_PCI_DEV_ID)) = - EFAULT \<and>
   fst (sdk_sx_reset env_second_map_fails (state0 SPECTRUM_PCI_DEV_ID)) \<noteq> - ENOMEM"
proof -
  let ?E = "env_second_map_fails" and ?s = "state0 SPECTRUM_PCI_DEV_ID"
  let ?w = "wait_for_system_ready ?E (get_chip_reset_duration (cfg ?E) ?s) ?s"
  have r: "fst ?w = 0" by (simp add: eval_defs env_second_map_fails_def)
  then have pre: "?w = (0, fst (snd ?w), snd (snd ?w))" by (metis prod.collapse)
  have mrsr: "mrsr_ret ?E = 0" by (simp add: env_second_map_fails_def env_ready_at_def env_idle_def)
  have "n_ioremap (snd (snd ?w)) = 1" by (simp add: eval_defs env_second_map_fails_def)
  then have nomap: "\<not> ioremap_ok ?E (n_ioremap (snd (snd ?w)))"
    by (simp add: env_second_map_fails_def)
  from sdk_sx_reset_zero_check_fault [OF pre mrsr] nomap r mrsr
  show ?thesis by simp
qed

subsection \<open>The in-progress flag and the fallback\<close>

lemma flag_window_quiet_prefix:
  "\<forall>e \<in> set es. \<not> begins_trigger e \<Longrightarrow>
     flag_window f0 (map (Pair f0) es @ tr) = flag_window f0 tr"
  by (induction es) simp_all

lemma flag_window_quiet: "\<forall>e \<in> set es. \<not> begins_trigger e \<Longrightarrow> flag_window f0 (map (Pair f0) es)"
  using flag_window_quiet_prefix [of es f0 "[]"] by simp

lemma flag_window_trigger:
  "begins_trigger e \<Longrightarrow> flag_window f0 ((True, e) # map (Pair True) es)"
  by (simp add: list_all_iff)

lemma new_trace_append: "trace s' = trace s @ tr \<Longrightarrow> new_trace s s' = tr"
  by (simp add: new_trace_def)

lemma poll_vendor_id_cases:
  assumes "poll_vendor_id E b s = (vendor, s')"
  obtains
    (hit) "fst (cfg_access E (n_cfg s)) = 0" "vendor \<noteq> 0xffff"
      "s' = emit (Pci_read_config_word (PCI_VENDOR_ID (cfg E))) (s\<lparr>n_cfg := n_cfg s + 1\<rparr>)"
  | (again) "poll_vendor_id E b (elapse E 0 (msleep E 1 (emit (Pci_read_config_word (PCI_VENDOR_ID (cfg E))) (s\<lparr>n_cfg := n_cfg s + 1\<rparr>)))) = (vendor, s')"
      "fst (cfg_access E (n_cfg s)) = 0 \<longrightarrow> (ucast (snd (cfg_access E (n_cfg s))) :: u16) = 0xffff"
      "time_before (fst (sleep_then_read E 1 (clock s))) b"
  | (late) "s' = elapse E 0 (msleep E 1 (emit (Pci_read_config_word (PCI_VENDOR_ID (cfg E))) (s\<lparr>n_cfg := n_cfg s + 1\<rparr>)))"
proof -
  let ?s1 = "emit (Pci_read_config_word (PCI_VENDOR_ID (cfg E))) (s\<lparr>n_cfg := n_cfg s + 1\<rparr>)"
  let ?rc = "fst (cfg_access E (n_cfg s))"
  let ?v = "ucast (snd (cfg_access E (n_cfg s))) :: u16"
  have eq: "poll_vendor_id E b s =
     (if ?rc = 0 \<and> ?v \<noteq> 0xffff then (?v, ?s1)
      else if time_before (fst (sleep_then_read E 1 (clock s))) b
      then poll_vendor_id E b (elapse E 0 (msleep E 1 ?s1))
      else (?v, elapse E 0 (msleep E 1 ?s1)))"
    by (subst poll_vendor_id.simps)
       (simp add: Let_def split_beta read_jiffies_eq elapse_fields msleep_fields emit_fields
          sleep_then_read_def)
  show ?thesis
  proof (cases "?rc = 0 \<and> ?v \<noteq> 0xffff")
    case True
    with assms [unfolded eq] have "vendor = ?v" "s' = ?s1" by auto
    with True show ?thesis by (intro hit) simp_all
  next
    case nr: False
    show ?thesis
    proof (cases "time_before (fst (sleep_then_read E 1 (clock s))) b")
      case True
      with nr assms [unfolded eq]
      have "poll_vendor_id E b (elapse E 0 (msleep E 1 ?s1)) = (vendor, s')"
        by (auto split: if_splits)
      then show ?thesis using nr True by (intro again) auto
    next
      case False
      with nr assms [unfolded eq] have "s' = elapse E 0 (msleep E 1 ?s1)"
        by (auto split: if_splits)
      then show ?thesis by (rule late)
    qed
  qed
qed

lemma poll_vendor_id_effect:
  "poll_vendor_id E b s = (vendor, s') \<Longrightarrow>
     dev_sw_rst_flow s' = dev_sw_rst_flow s \<and> device s' = device s \<and>
     pdev_present s' = pdev_present s \<and>
     (\<exists>es. trace s' = trace s @ map (Pair (dev_sw_rst_flow s)) es \<and>
           set es \<subseteq> range Pci_read_config_word \<union> range Msleep)"
proof (induction E b s arbitrary: vendor s' rule: poll_vendor_id.induct)
  case (1 E b s)
  let ?s1 = "emit (Pci_read_config_word (PCI_VENDOR_ID (cfg E))) (s\<lparr>n_cfg := n_cfg s + 1\<rparr>)"
  let ?s2 = "elapse E 0 (msleep E 1 ?s1)"
  let ?f = "dev_sw_rst_flow s"
  from "1.prems" show ?case
  proof (cases rule: poll_vendor_id_cases)
    case hit
    have "trace s' = trace s @ map (Pair ?f) [Pci_read_config_word (PCI_VENDOR_ID (cfg E))]"
      unfolding hit(3) by (simp add: emit_fields)
    moreover have "set [Pci_read_config_word (PCI_VENDOR_ID (cfg E))] \<subseteq> range Pci_read_config_word \<union> range Msleep"
      by simp
    ultimately have "\<exists>es. trace s' = trace s @ map (Pair ?f) es \<and>
           set es \<subseteq> range Pci_read_config_word \<union> range Msleep" by blast
    moreover have "dev_sw_rst_flow s' = ?f \<and> device s' = device s \<and> pdev_present s' = pdev_present s"
      unfolding hit(3) by (simp add: emit_fields)
    ultimately show ?thesis by blast
  next
    case again
    obtain rc v where cv: "cfg_access E (n_cfg s) = (rc, v)" by (cases "cfg_access E (n_cfg s)")
    from again(2) cv have c: "\<not> (rc = 0 \<and> (ucast v :: u16) \<noteq> 0xffff)" by auto
    have rj: "(fst (tick E 0 (clock (msleep E 1 ?s1))), ?s2) = read_jiffies E (msleep E 1 ?s1)"
      by (simp add: read_jiffies_eq)
    have tb: "time_before (fst (tick E 0 (clock (msleep E 1 ?s1)))) b"
      using again(3) by (simp add: msleep_fields emit_fields sleep_then_read_def)
    note ih = "1.IH" [OF refl cv [symmetric] refl refl c refl refl rj tb again(1)]
    have s2: "dev_sw_rst_flow ?s2 = ?f" "device ?s2 = device s" "pdev_present ?s2 = pdev_present s"
      "trace ?s2 = trace s @ map (Pair ?f) [Pci_read_config_word (PCI_VENDOR_ID (cfg E)), Msleep 1]"
      by (simp_all add: emit_fields msleep_fields elapse_fields)
    from ih [unfolded s2] obtain es where es:
      "trace s' = (trace s @ map (Pair ?f) [Pci_read_config_word (PCI_VENDOR_ID (cfg E)), Msleep 1]) @ map (Pair ?f) es"
      "set es \<subseteq> range Pci_read_config_word \<union> range Msleep"
      by blast
    let ?all = "Pci_read_config_word (PCI_VENDOR_ID (cfg E)) # Msleep 1 # es"
    from es(1) have "trace s' = trace s @ map (Pair ?f) ?all" by simp
    moreover from es(2) have "set ?all \<subseteq> range Pci_read_config_word \<union> range Msleep" by auto
    ultimately have "\<exists>es. trace s' = trace s @ map (Pair ?f) es \<and>
           set es \<subseteq> range Pci_read_config_word \<union> range Msleep" by blast
    with ih [unfolded s2] show ?thesis by blast
  next
    case late
    have "trace s' = trace s @ map (Pair ?f) [Pci_read_config_word (PCI_VENDOR_ID (cfg E)), Msleep 1]"
      unfolding late by (simp add: emit_fields msleep_fields elapse_fields)
    moreover have "set [Pci_read_config_word (PCI_VENDOR_ID (cfg E)), Msleep 1] \<subseteq> range Pci_read_config_word \<union> range Msleep"
      by simp
    ultimately have "\<exists>es. trace s' = trace s @ map (Pair ?f) es \<and>
           set es \<subseteq> range Pci_read_config_word \<union> range Msleep" by blast
    moreover have "dev_sw_rst_flow s' = ?f \<and> device s' = device s \<and> pdev_present s' = pdev_present s"
      unfolding late by (simp add: emit_fields msleep_fields elapse_fields)
    ultimately show ?thesis by blast
  qed
qed

lemma wait_trace:
  assumes "wait_for_system_ready E d s = (ret, tw, s')"
  obtains es where "trace s' = trace s @ map (Pair (dev_sw_rst_flow s)) es"
    "\<forall>e \<in> set es. \<not> begins_trigger e" "\<forall>b. Printk_wait_for_reset b \<in> set es \<longrightarrow> b = d"
  using wait_effect [OF assms] by blast

lemma wait_frame:
  assumes "wait_for_system_ready E d s = (ret, tw, s')"
  shows "dev_sw_rst_flow s' = dev_sw_rst_flow s" "device s' = device s"
    "pdev_present s' = pdev_present s"
  using wait_effect [OF assms] by blast+

lemma flag_window_after:
  "\<forall>e \<in> set es1. \<not> begins_trigger e \<Longrightarrow> begins_trigger e \<Longrightarrow>
     flag_window f0 (map (Pair f0) es1 @ (True, e) # map (Pair True) es2)"
  by (simp add: flag_window_quiet_prefix list_all_iff)

lemma sdk_sx_reset_window:
  "\<not> dev_sw_rst_flow (snd (sdk_sx_reset E s)) \<and> device (snd (sdk_sx_reset E s)) = device s \<and>
   pdev_present (snd (sdk_sx_reset E s)) = pdev_present s \<and>
   flag_window (dev_sw_rst_flow s) (new_trace s (snd (sdk_sx_reset E s)))"
proof -
  let ?d = "get_chip_reset_duration (cfg E) s"
  let ?f = "dev_sw_rst_flow s"
  obtain e1 tw1 s1 where w1: "wait_for_system_ready E ?d s = (e1, tw1, s1)"
    by (cases "wait_for_system_ready E ?d s")
  from w1 obtain es1 where es1: "trace s1 = trace s @ map (Pair ?f) es1"
    "\<forall>e \<in> set es1. \<not> begins_trigger e" by (rule wait_trace)
  note f1 = wait_frame [OF w1]
  show ?thesis
  proof (cases "e1 = 0")
    case False
    then have r: "sdk_sx_reset E s = (e1, s1\<lparr>dev_sw_rst_flow := False\<rparr>)"
      by (simp add: sdk_sx_reset_def w1 out_dev_sw_rst_flow_def)
    have "new_trace s (s1\<lparr>dev_sw_rst_flow := False\<rparr>) = map (Pair ?f) es1"
      by (rule new_trace_append) (simp add: es1(1))
    with es1(2) f1 show ?thesis by (simp add: r flag_window_quiet)
  next
    case True
    let ?s3 = "emit (Sx_ACCESS_REG_MRSR (mrsr_ret E)) (s1\<lparr>dev_sw_rst_flow := True\<rparr>)"
    have s3: "dev_sw_rst_flow ?s3 = True" "device ?s3 = device s" "pdev_present ?s3 = pdev_present s"
      "trace ?s3 = trace s @ map (Pair ?f) es1 @ [(True, Sx_ACCESS_REG_MRSR (mrsr_ret E))]"
      by (simp_all add: emit_fields es1(1) f1)
    have trig: "begins_trigger (Sx_ACCESS_REG_MRSR (mrsr_ret E))" by (simp add: begins_trigger_def)
    show ?thesis
    proof (cases "mrsr_ret E = 0")
      case False
      with True have r: "sdk_sx_reset E s = (mrsr_ret E, ?s3\<lparr>dev_sw_rst_flow := False\<rparr>)"
        by (simp add: sdk_sx_reset_def w1 out_dev_sw_rst_flow_def reset_dev_by_mrsr_reg_def Let_def)
      have "new_trace s (?s3\<lparr>dev_sw_rst_flow := False\<rparr>) =
              map (Pair ?f) es1 @ (True, Sx_ACCESS_REG_MRSR (mrsr_ret E)) # map (Pair True) []"
        by (rule new_trace_append) (simp add: s3)
      with es1(2) s3 show ?thesis
        by (simp add: r flag_window_after trig del: list.map)
    next
      case m: True
      obtain e2 tw2 s4 where w2: "wait_for_system_ready E 0 ?s3 = (e2, tw2, s4)"
        by (cases "wait_for_system_ready E 0 ?s3")
      from w2 obtain es2 where es2: "trace s4 = trace ?s3 @ map (Pair (dev_sw_rst_flow ?s3)) es2"
        by (rule wait_trace)
      note f4 = wait_frame [OF w2, unfolded s3]
      have t4: "trace s4 = trace s @ map (Pair ?f) es1 @
                  (True, Sx_ACCESS_REG_MRSR (mrsr_ret E)) # map (Pair True) es2"
        using es2 by (simp add: s3)
      show ?thesis
      proof (cases "e2 = - ETIME")
        case False
        with True m have r: "sdk_sx_reset E s = (- EFAULT, s4\<lparr>dev_sw_rst_flow := False\<rparr>)"
          using w2
          by (simp add: sdk_sx_reset_def w1 out_dev_sw_rst_flow_def reset_dev_by_mrsr_reg_def Let_def)
        have "new_trace s (s4\<lparr>dev_sw_rst_flow := False\<rparr>) =
              map (Pair ?f) es1 @ (True, Sx_ACCESS_REG_MRSR (mrsr_ret E)) # map (Pair True) es2"
          by (rule new_trace_append) (simp add: t4)
        with es1(2) f4 show ?thesis
          by (simp add: r flag_window_after trig del: map_append)
      next
        case t: True
        obtain e3 tw3 s5 where w3: "wait_for_system_ready E ?d s4 = (e3, tw3, s5)"
          by (cases "wait_for_system_ready E ?d s4")
        from w3 obtain es3 where es3: "trace s5 = trace s4 @ map (Pair (dev_sw_rst_flow s4)) es3"
          by (rule wait_trace)
        note f5 = wait_frame [OF w3, unfolded f4]
        from True m t have r: "sdk_sx_reset E s = (e3, s5\<lparr>dev_sw_rst_flow := False\<rparr>)"
          using w2 w3
          by (simp add: sdk_sx_reset_def w1 out_dev_sw_rst_flow_def reset_dev_by_mrsr_reg_def Let_def)
        have "new_trace s (s5\<lparr>dev_sw_rst_flow := False\<rparr>) =
              map (Pair ?f) es1 @ (True, Sx_ACCESS_REG_MRSR (mrsr_ret E)) # map (Pair True) (es2 @ es3)"
          by (rule new_trace_append) (simp add: es3 f4 t4)
        with es1(2) f5 show ?thesis
          by (simp add: r flag_window_after trig del: map_append)
      qed
    qed
  qed
qed

lemma do_legacy_reset_trace:
  assumes "do_legacy_reset E s = (err, s')"
  obtains ok es where
    "trace s' = trace s @ (dev_sw_rst_flow s, Ioremap SX_RESET_BASE ok) # map (Pair (dev_sw_rst_flow s)) es"
    "\<forall>b. Printk_wait_for_reset b \<notin> set es" "\<forall>r. Sx_ACCESS_REG_MRSR r \<notin> set es"
proof (cases "ioremap_ok E (n_ioremap s)")
  case True
  with do_legacy_reset_effect [OF assms]
  have "trace s' = trace s @ (dev_sw_rst_flow s, Ioremap SX_RESET_BASE True) #
          map (Pair (dev_sw_rst_flow s))
            [Writel SX_RESET_VALUE, Iounmap SX_RESET_BASE,
             Msleep (if INCREASED_TIMEOUT (cfg E) then 180000 else 3000)]"
    by simp
  then show ?thesis by (rule that) simp_all
next
  case False
  with do_legacy_reset_effect [OF assms]
  have "trace s' = trace s @ (dev_sw_rst_flow s, Ioremap SX_RESET_BASE False) #
          map (Pair (dev_sw_rst_flow s)) []"
    by simp
  then show ?thesis by (rule that) simp_all
qed

lemma do_legacy_reset_frame:
  assumes "do_legacy_reset E s = (err, s')"
  shows "dev_sw_rst_flow s' = dev_sw_rst_flow s" "device s' = device s"
    "pdev_present s' = pdev_present s"
  using do_legacy_reset_effect [OF assms] by blast+

lemma new_events_append_trace:
  "trace s' = trace s @ tr \<Longrightarrow> new_events s s' = map snd tr"
  by (simp add: new_events_def)

lemma legacy_reset_window:
  "\<not> dev_sw_rst_flow (snd (legacy_reset E s)) \<and>
   flag_window (dev_sw_rst_flow s) (new_trace s (snd (legacy_reset E s))) \<and>
   (\<forall>b. Printk_wait_for_reset b \<in> set (new_events s (snd (legacy_reset E s)))
        \<longrightarrow> b = get_chip_reset_duration (cfg E) s * 2)"
proof (cases "pdev_present s")
  case False
  then have r: "legacy_reset E s = (- ENODEV, s\<lparr>dev_sw_rst_flow := False\<rparr>)"
    by (simp add: legacy_reset_def out_dev_sw_rst_flow_def)
  show ?thesis by (simp add: r new_trace_def new_events_def)
next
  case p: True
  let ?d = "get_chip_reset_duration (cfg E) s * 2"
  let ?f = "dev_sw_rst_flow s"
  obtain e1 tw1 s1 where w1: "wait_for_system_ready E ?d s = (e1, tw1, s1)"
    by (cases "wait_for_system_ready E ?d s")
  from w1 obtain es1 where es1: "trace s1 = trace s @ map (Pair ?f) es1"
    "\<forall>e \<in> set es1. \<not> begins_trigger e" "\<forall>b. Printk_wait_for_reset b \<in> set es1 \<longrightarrow> b = ?d"
    by (rule wait_trace)
  show ?thesis
  proof (cases "e1 = 0")
    case False
    with p have r: "legacy_reset E s = (e1, s1\<lparr>dev_sw_rst_flow := False\<rparr>)"
      by (simp add: legacy_reset_def w1 out_dev_sw_rst_flow_def Let_def)
    have t: "trace (s1\<lparr>dev_sw_rst_flow := False\<rparr>) = trace s @ map (Pair ?f) es1"
      by (simp add: es1(1))
    from es1(2,3) show ?thesis
      by (simp add: r new_trace_append [OF t] new_events_append_trace [OF t] flag_window_quiet comp_def)
  next
    case True
    let ?s2 = "s1\<lparr>dev_sw_rst_flow := True\<rparr>"
    obtain e2 s3 where l: "do_legacy_reset E ?s2 = (e2, s3)" by (cases "do_legacy_reset E ?s2")
    from l obtain ok es2 where es2:
      "trace s3 = trace ?s2 @ (dev_sw_rst_flow ?s2, Ioremap SX_RESET_BASE ok) # map (Pair (dev_sw_rst_flow ?s2)) es2"
      "\<forall>b. Printk_wait_for_reset b \<notin> set es2"
      by (rule do_legacy_reset_trace)
    note f3 = do_legacy_reset_frame [OF l]
    have t3: "trace s3 = trace s @ map (Pair ?f) es1 @ (True, Ioremap SX_RESET_BASE ok) # map (Pair True) es2"
      using es2(1) by (simp add: es1(1))
    have trig: "begins_trigger (Ioremap SX_RESET_BASE ok)" by (simp add: begins_trigger_def)
    show ?thesis
    proof (cases "e2 = 0")
      case False
      with p True have r: "legacy_reset E s = (e2, s3\<lparr>dev_sw_rst_flow := False\<rparr>)"
        by (simp add: legacy_reset_def w1 l out_dev_sw_rst_flow_def Let_def)
      have t: "trace (s3\<lparr>dev_sw_rst_flow := False\<rparr>) =
          trace s @ map (Pair ?f) es1 @ (True, Ioremap SX_RESET_BASE ok) # map (Pair True) es2"
        by (simp add: t3)
      have "flag_window ?f (new_trace s (s3\<lparr>dev_sw_rst_flow := False\<rparr>))"
        unfolding new_trace_append [OF t] by (rule flag_window_after [OF es1(2) trig])
      moreover have "\<forall>b. Printk_wait_for_reset b \<in> set (new_events s (s3\<lparr>dev_sw_rst_flow := False\<rparr>)) \<longrightarrow> b = ?d"
        unfolding new_events_append_trace [OF t] using es1(3) es2(2) by (auto simp: comp_def)
      ultimately show ?thesis by (simp add: r)
    next
      case e2: True
      obtain e3 tw3 s4 where w3: "wait_for_system_ready E ?d s3 = (e3, tw3, s4)"
        by (cases "wait_for_system_ready E ?d s3")
      from w3 obtain es3 where es3: "trace s4 = trace s3 @ map (Pair (dev_sw_rst_flow s3)) es3"
        "\<forall>b. Printk_wait_for_reset b \<in> set es3 \<longrightarrow> b = ?d"
        by (rule wait_trace)
      from p True e2 have r: "legacy_reset E s = (e3, s4\<lparr>dev_sw_rst_flow := False\<rparr>)"
        by (simp add: legacy_reset_def w1 l w3 out_dev_sw_rst_flow_def Let_def)
      have t: "trace (s4\<lparr>dev_sw_rst_flow := False\<rparr>) =
          trace s @ map (Pair ?f) es1 @ (True, Ioremap SX_RESET_BASE ok) # map (Pair True) (es2 @ es3)"
        by (simp add: es3(1) t3 f3)
      have "flag_window ?f (new_trace s (s4\<lparr>dev_sw_rst_flow := False\<rparr>))"
        unfolding new_trace_append [OF t] by (rule flag_window_after [OF es1(2) trig])
      moreover have "\<forall>b. Printk_wait_for_reset b \<in> set (new_events s (s4\<lparr>dev_sw_rst_flow := False\<rparr>)) \<longrightarrow> b = ?d"
        unfolding new_events_append_trace [OF t] using es1(3) es2(2) es3(2) by (auto simp: comp_def)
      ultimately show ?thesis by (simp add: r)
    qed
  qed
qed

lemma legacy_reset_SwitchX_quiet:
  "dev_sw_rst_flow (snd (legacy_reset_SwitchX E s)) = dev_sw_rst_flow s \<and>
   list_all (\<lambda>x. fst x = dev_sw_rst_flow s) (new_trace s (snd (legacy_reset_SwitchX E s))) \<and>
   (\<forall>r. Sx_ACCESS_REG_MRSR r \<notin> set (new_events s (snd (legacy_reset_SwitchX E s)))) \<and>
   (\<forall>b. Printk_wait_for_reset b \<notin> set (new_events s (snd (legacy_reset_SwitchX E s))))"
proof (cases "pdev_present s")
  case False
  then show ?thesis by (simp add: legacy_reset_SwitchX_def new_trace_def new_events_def)
next
  case p: True
  let ?f = "dev_sw_rst_flow s"
  obtain e1 s1 where l: "do_legacy_reset E s = (e1, s1)" by (cases "do_legacy_reset E s")
  from l obtain ok es1 where es1:
    "trace s1 = trace s @ (?f, Ioremap SX_RESET_BASE ok) # map (Pair ?f) es1"
    "\<forall>b. Printk_wait_for_reset b \<notin> set es1" "\<forall>r. Sx_ACCESS_REG_MRSR r \<notin> set es1"
    by (rule do_legacy_reset_trace)
  note f1 = do_legacy_reset_frame [OF l]
  show ?thesis
  proof (cases "e1 = 0")
    case False
    with p have r: "legacy_reset_SwitchX E s = (e1, s1)"
      by (simp add: legacy_reset_SwitchX_def l)
    from es1(2,3) f1 show ?thesis
      by (simp add: r new_trace_append [OF es1(1)] new_events_append_trace [OF es1(1)]
          list_all_iff comp_def)
  next
    case True
    let ?end = "fst (tick E 0 (clock s1)) + SX_RESET_TIMEOUT_JIFFIES (cfg E)"
    obtain vendor s2 where v: "poll_vendor_id E ?end (elapse E 0 s1) = (vendor, s2)"
      by (cases "poll_vendor_id E ?end (elapse E 0 s1)")
    from poll_vendor_id_effect [OF v] obtain es2 where es2:
      "trace s2 = trace s1 @ map (Pair (dev_sw_rst_flow s1)) es2"
      "set es2 \<subseteq> range Pci_read_config_word \<union> range Msleep"
      and f2: "dev_sw_rst_flow s2 = dev_sw_rst_flow s1"
      unfolding elapse_fields by blast
    from p True have r: "snd (legacy_reset_SwitchX E s) = s2"
      by (simp add: legacy_reset_SwitchX_def l v Let_def read_jiffies_eq)
    have t: "trace s2 = trace s @ (?f, Ioremap SX_RESET_BASE ok) # map (Pair ?f) (es1 @ es2)"
      by (simp add: es2(1) es1(1) f1)
    from es1(2,3) es2(2) f1 f2 show ?thesis
      by (auto simp: r new_trace_append [OF t] new_events_append_trace [OF t] list_all_iff comp_def)
  qed
qed

lemma duration_doubled:
  "unat (get_chip_reset_duration B s * 2) = 2 * unat (get_chip_reset_duration B s)"
  by (cases "device s")
     (simp_all add: get_chip_reset_duration_def SX_SW_RESET_TIMEOUT_MSECS_def)

lemma sdk_sx_reset_device: "device (snd (sdk_sx_reset E s)) = device s"
  using sdk_sx_reset_window [of E s] by blast

lemma get_chip_reset_duration_device:
  "device s' = device s \<Longrightarrow> get_chip_reset_duration B s' = get_chip_reset_duration B s"
  by (simp add: get_chip_reset_duration_def)

lemmas errno_defs = ENOMEM_def EFAULT_def ENODEV_def ETIME_def

lemmas run_defs =
  sdk_sx_reset_def legacy_reset_def legacy_reset_SwitchX_def do_legacy_reset_def
  reset_dev_by_mrsr_reg_def out_dev_sw_rst_flow_def perform_dev_sw_reset_def
  poll_vendor_id.simps SX_RESET_TIMEOUT_JIFFIES_def new_trace_def new_events_def
  env_reset_works_def env_switchx_def

text \<open>
  Claim C3, as the code has it. \<open>sdk_sx_reset\<close> and \<open>legacy_reset\<close>, the two
  executors of the modern devices, return with the flag cleared on every path, and
  the calls they make form a window: every call before the trigger begins is made
  under the value the flag had at the start, and the first call of the trigger and
  every call after it, up to the last readiness verdict, are made under a true flag.
  \<open>legacy_reset_SwitchX\<close> never writes the flag: it returns with the value the flag
  had at the start, and all its calls are made under that value.
\<close>

theorem dev_sw_rst_flow_window:
  "(\<not> dev_sw_rst_flow (snd (sdk_sx_reset E s)) \<and>
    flag_window (dev_sw_rst_flow s) (new_trace s (snd (sdk_sx_reset E s)))) \<and>
   (\<not> dev_sw_rst_flow (snd (legacy_reset E s)) \<and>
    flag_window (dev_sw_rst_flow s) (new_trace s (snd (legacy_reset E s)))) \<and>
   (dev_sw_rst_flow (snd (legacy_reset_SwitchX E s)) = dev_sw_rst_flow s \<and>
    list_all (\<lambda>x. fst x = dev_sw_rst_flow s) (new_trace s (snd (legacy_reset_SwitchX E s))))"
  using sdk_sx_reset_window [of E s] legacy_reset_window [of E s] legacy_reset_SwitchX_quiet [of E s]
  by blast

theorem dev_sw_rst_flow_window_witness:
  "fst (sdk_sx_reset env_reset_works (state0 SPECTRUM_PCI_DEV_ID)) = 0 \<and>
   flag_window False
     (new_trace (state0 SPECTRUM_PCI_DEV_ID) (snd (sdk_sx_reset env_reset_works (state0 SPECTRUM_PCI_DEV_ID)))) \<and>
   (True, Sx_ACCESS_REG_MRSR 0) \<in>
     set (new_trace (state0 SPECTRUM_PCI_DEV_ID) (snd (sdk_sx_reset env_reset_works (state0 SPECTRUM_PCI_DEV_ID))))"
proof -
  let ?r = "sdk_sx_reset env_reset_works (state0 SPECTRUM_PCI_DEV_ID)"
  have "fst ?r = 0" by (simp add: run_defs eval_defs errno_defs)
  moreover have "(True, Sx_ACCESS_REG_MRSR 0) \<in> set (new_trace (state0 SPECTRUM_PCI_DEV_ID) (snd ?r))"
    by (simp add: run_defs eval_defs errno_defs)
  moreover have "dev_sw_rst_flow (state0 SPECTRUM_PCI_DEV_ID) = False" by (simp add: state0_def)
  ultimately show ?thesis
    using dev_sw_rst_flow_window [of env_reset_works "state0 SPECTRUM_PCI_DEV_ID"] by simp
qed

text \<open>
  Claim C3 as it is written fails for SwitchX: a reset that succeeds, with the
  trigger and the readback of the vendor identifier made while the flag is false.
\<close>

theorem legacy_reset_SwitchX_flag_false:
  "fst (legacy_reset_SwitchX env_switchx (state0 SWITCHX_PCI_DEV_ID)) = 0 \<and>
   new_trace (state0 SWITCHX_PCI_DEV_ID) (snd (legacy_reset_SwitchX env_switchx (state0 SWITCHX_PCI_DEV_ID))) =
     [(False, Ioremap SX_RESET_BASE True), (False, Writel SX_RESET_VALUE),
      (False, Iounmap SX_RESET_BASE), (False, Msleep 3000), (False, Pci_read_config_word 0)]"
  by (simp add: run_defs eval_defs errno_defs)

text \<open>
  Claim C2. For a modern device \<open>perform_dev_sw_reset\<close> is \<open>sdk_sx_reset\<close> if that
  succeeds; if it fails, \<open>legacy_reset\<close> is run on the state it left, its result is
  the result of the whole, and every wait it begins has twice the budget of the policy
  for the device. For SwitchX the result is that of \<open>legacy_reset_SwitchX\<close>, with no
  MRSR command and no wait on the status register. For any other identifier the result
  is \<open>-ENODEV\<close> and the state is untouched.
\<close>

theorem perform_dev_sw_reset_fallback:
  "(modern_family (device s) \<longrightarrow>
      (fst (sdk_sx_reset E s) = 0 \<longrightarrow> perform_dev_sw_reset E s = sdk_sx_reset E s) \<and>
      (fst (sdk_sx_reset E s) \<noteq> 0 \<longrightarrow>
         perform_dev_sw_reset E s = legacy_reset E (snd (sdk_sx_reset E s)) \<and>
         (\<forall>b. Printk_wait_for_reset b \<in>
                set (new_events (snd (sdk_sx_reset E s)) (snd (perform_dev_sw_reset E s)))
              \<longrightarrow> unat b = 2 * unat (get_chip_reset_duration (cfg E) s)))) \<and>
   (device s = SWITCHX_PCI_DEV_ID \<longrightarrow>
      perform_dev_sw_reset E s = legacy_reset_SwitchX E s \<and>
      (\<forall>r. Sx_ACCESS_REG_MRSR r \<notin> set (new_events s (snd (perform_dev_sw_reset E s)))) \<and>
      (\<forall>b. Printk_wait_for_reset b \<notin> set (new_events s (snd (perform_dev_sw_reset E s))))) \<and>
   (device s = OTHER_PCI_DEV_ID \<longrightarrow> perform_dev_sw_reset E s = (- ENODEV, s))"
proof -
  let ?k = "sdk_sx_reset E s"
  have chip: "perform_dev_sw_reset E s = (if fst ?k \<noteq> 0 then legacy_reset E (snd ?k) else ?k)"
    if "modern_family (device s)"
    using that
    by (cases ?k; cases "device s") (simp_all add: perform_dev_sw_reset_def modern_family_def)
  have budget: "unat b = 2 * unat (get_chip_reset_duration (cfg E) s)"
    if "Printk_wait_for_reset b \<in> set (new_events (snd ?k) (snd (legacy_reset E (snd ?k))))" for b
  proof -
    from that legacy_reset_window [of E "snd ?k"]
    have "b = get_chip_reset_duration (cfg E) (snd ?k) * 2" by blast
    also have "get_chip_reset_duration (cfg E) (snd ?k) = get_chip_reset_duration (cfg E) s"
      by (rule get_chip_reset_duration_device) (rule sdk_sx_reset_device)
    finally show ?thesis by (simp add: duration_doubled)
  qed
  have swx: "perform_dev_sw_reset E s = legacy_reset_SwitchX E s" if "device s = SWITCHX_PCI_DEV_ID"
    using that by (simp add: perform_dev_sw_reset_def)
  have other: "perform_dev_sw_reset E s = (- ENODEV, s)" if "device s = OTHER_PCI_DEV_ID"
    using that by (simp add: perform_dev_sw_reset_def)
  show ?thesis
    using chip budget swx other legacy_reset_SwitchX_quiet [of E s] by auto
qed

theorem perform_dev_sw_reset_fallback_witness:
  "modern_family (device (state0 SPECTRUM_PCI_DEV_ID)) \<and>
   fst (sdk_sx_reset (env_ready_at 0) (state0 SPECTRUM_PCI_DEV_ID)) = - EFAULT \<and>
   fst (perform_dev_sw_reset (env_ready_at 0) (state0 SPECTRUM_PCI_DEV_ID)) = 0 \<and>
   perform_dev_sw_reset (env_ready_at 0) (state0 SPECTRUM_PCI_DEV_ID) =
     legacy_reset (env_ready_at 0) (snd (sdk_sx_reset (env_ready_at 0) (state0 SPECTRUM_PCI_DEV_ID))) \<and>
   Printk_wait_for_reset 10000 \<in>
     set (new_events (snd (sdk_sx_reset (env_ready_at 0) (state0 SPECTRUM_PCI_DEV_ID)))
            (snd (perform_dev_sw_reset (env_ready_at 0) (state0 SPECTRUM_PCI_DEV_ID)))) \<and>
   perform_dev_sw_reset env_switchx (state0 SWITCHX_PCI_DEV_ID) =
     legacy_reset_SwitchX env_switchx (state0 SWITCHX_PCI_DEV_ID) \<and>
   perform_dev_sw_reset env_idle (state0 OTHER_PCI_DEV_ID) = (- ENODEV, state0 OTHER_PCI_DEV_ID)"
proof -
  let ?E = "env_ready_at 0" and ?s = "state0 SPECTRUM_PCI_DEV_ID"
  have m: "modern_family (device ?s)" by (simp add: modern_family_def state0_def)
  have k: "fst (sdk_sx_reset ?E ?s) = - EFAULT" by (simp add: run_defs eval_defs errno_defs)
  then have k0: "fst (sdk_sx_reset ?E ?s) \<noteq> 0" by (simp add: EFAULT_def)
  have p: "fst (perform_dev_sw_reset ?E ?s) = 0" by (simp add: run_defs eval_defs errno_defs)
  have b: "Printk_wait_for_reset 10000 \<in>
     set (new_events (snd (sdk_sx_reset ?E ?s)) (snd (perform_dev_sw_reset ?E ?s)))"
    by (simp add: run_defs eval_defs errno_defs)
  have x: "device (state0 SWITCHX_PCI_DEV_ID) = SWITCHX_PCI_DEV_ID"
    and o: "device (state0 OTHER_PCI_DEV_ID) = OTHER_PCI_DEV_ID" by (simp_all add: state0_def)
  from perform_dev_sw_reset_fallback [of ?s ?E] m k0
  have "perform_dev_sw_reset ?E ?s = legacy_reset ?E (snd (sdk_sx_reset ?E ?s))" by blast
  moreover from perform_dev_sw_reset_fallback [of "state0 SWITCHX_PCI_DEV_ID" env_switchx] x
  have "perform_dev_sw_reset env_switchx (state0 SWITCHX_PCI_DEV_ID) =
     legacy_reset_SwitchX env_switchx (state0 SWITCHX_PCI_DEV_ID)" by blast
  moreover from perform_dev_sw_reset_fallback [of "state0 OTHER_PCI_DEV_ID" env_idle] o
  have "perform_dev_sw_reset env_idle (state0 OTHER_PCI_DEV_ID) = (- ENODEV, state0 OTHER_PCI_DEV_ID)"
    by blast
  ultimately show ?thesis using m k p b by simp
qed






subsection \<open>Configuration Snapshot\<close>

lemma attempts_le: "attempts E k n \<le> n"
  by (induction n arbitrary: k) auto

lemma attempts_all_ok: "all_ok E k n \<Longrightarrow> attempts E k n = n"
  by (induction n arbitrary: k) auto

lemma attempts_add:
  "attempts E k (m + n) = (if all_ok E k m then m + attempts E (k + m) n else attempts E k m)"
  by (induction m arbitrary: k) auto

lemma all_ok_add: "all_ok E k (m + n) = (all_ok E k m \<and> all_ok E (k + m) n)"
  by (induction m arbitrary: k) auto

lemma did_nil: "did E s [] 0 s"
  by (simp add: did_def)

lemma did_append:
  assumes a: "did E s p1 e1 s1"
    and b: "e1 = 0 \<Longrightarrow> did E s1 p2 e2 s2"
    and c: "e1 \<noteq> 0 \<Longrightarrow> e2 = e1 \<and> s2 = s1"
  shows "did E s (p1 @ p2) e2 s2"
proof (cases "all_ok E (n_cfg s) (length p1)")
  case True
  with a have e1: "e1 = 0" and n1: "n_cfg s1 = n_cfg s + length p1"
    and t1: "trace s1 = trace s @ map (Pair (dev_sw_rst_flow s)) p1"
    and f1: "dev_sw_rst_flow s1 = dev_sw_rst_flow s"
    by (simp_all add: did_def attempts_all_ok)
  from b [OF e1] True show ?thesis
    by (simp add: did_def n1 t1 f1 attempts_add all_ok_add)
next
  case False
  with a have e1: "e1 = - ENODEV" by (simp add: did_def)
  then have "e1 \<noteq> 0" by (simp add: ENODEV_def)
  from c [OF this] a False show ?thesis
    using attempts_le [of E "n_cfg s" "length p1"]
    by (simp add: did_def attempts_add all_ok_add)
qed

lemma did_write_dword:
  "pci_write_config_dword E off v s = (rc, s1) \<Longrightarrow>
     did E s [Pci_write_config_dword off v] (if rc \<noteq> 0 then - ENODEV else 0) s1"
  by (auto simp: did_def pci_write_config_dword_def emit_fields)

lemma did_write_word:
  "pci_write_config_word E off v s = (rc, s1) \<Longrightarrow>
     did E s [Pci_write_config_word off v] (if rc \<noteq> 0 then - ENODEV else 0) s1"
  by (auto simp: did_def pci_write_config_word_def emit_fields)

lemma did_ran_plan: "did E s plan err s' \<Longrightarrow> ran_plan E s plan err s'"
  by (simp add: did_def ran_plan_def new_events_def comp_def)

lemma restore_headers_loop_did:
  "restore_headers_loop E is h s = (err, s') \<Longrightarrow>
     did E s (map (\<lambda>i. Pci_write_config_dword (i * 4) (h i))
                (filter (\<lambda>i. i * 4 \<noteq> PCI_COMMAND (cfg E)) is)) err s'"
proof (induction "is" arbitrary: s)
  case Nil
  then show ?case by (simp add: did_nil)
next
  case (Cons i "is")
  show ?case
  proof (cases "i * 4 = PCI_COMMAND (cfg E)")
    case True
    with Cons show ?thesis by simp
  next
    case False
    obtain rc s1 where w: "pci_write_config_dword E (i * 4) (h i) s = (rc, s1)"
      by (cases "pci_write_config_dword E (i * 4) (h i) s")
    have "did E s ([Pci_write_config_dword (i * 4) (h i)] @
              map (\<lambda>i. Pci_write_config_dword (i * 4) (h i)) (filter (\<lambda>i. i * 4 \<noteq> PCI_COMMAND (cfg E)) is))
            err s'"
    proof (rule did_append [OF did_write_dword [OF w]])
      assume "(if rc \<noteq> 0 then - ENODEV else 0) = 0"
      then have "rc = 0" by (simp add: ENODEV_def split: if_splits)
      with Cons.prems False w have "restore_headers_loop E is h s1 = (err, s')" by simp
      then show "did E s1 (map (\<lambda>i. Pci_write_config_dword (i * 4) (h i))
                (filter (\<lambda>i. i * 4 \<noteq> PCI_COMMAND (cfg E)) is)) err s'"
        by (rule Cons.IH)
    next
      assume "(if rc \<noteq> 0 then - ENODEV else 0) \<noteq> 0"
      then have "rc \<noteq> 0" by (simp split: if_splits)
      with Cons.prems False w show "err = (if rc \<noteq> 0 then - ENODEV else 0) \<and> s' = s1" by auto
    qed
    with False show ?thesis by simp
  qed
qed

lemma restore_headers_words_did:
  assumes "restore_headers_words E h s = (err, s')"
  shows "did E s (map (\<lambda>i. Pci_write_config_dword (i * 4) (h i))
                   (filter (\<lambda>i. i * 4 \<noteq> PCI_COMMAND (cfg E)) [0..<16]) @
                 [Pci_write_config_dword (PCI_COMMAND (cfg E)) (h (PCI_COMMAND (cfg E) div 4))])
           err s'"
proof -
  obtain e1 s1 where l: "restore_headers_loop E [0..<16] h s = (e1, s1)"
    by (cases "restore_headers_loop E [0..<16] h s")
  obtain rc s2 where w: "pci_write_config_dword E (PCI_COMMAND (cfg E)) (h (PCI_COMMAND (cfg E) div 4)) s1 = (rc, s2)"
    by (cases "pci_write_config_dword E (PCI_COMMAND (cfg E)) (h (PCI_COMMAND (cfg E) div 4)) s1")
  show ?thesis
  proof (rule did_append [OF restore_headers_loop_did [OF l]])
    assume "e1 = 0"
    with assms l w have "err = (if rc \<noteq> 0 then - ENODEV else 0)" "s' = s2"
      by (auto simp: restore_headers_words_def split: if_splits)
    with did_write_dword [OF w]
    show "did E s1 [Pci_write_config_dword (PCI_COMMAND (cfg E)) (h (PCI_COMMAND (cfg E) div 4))] err s'"
      by simp
  next
    assume "e1 \<noteq> 0"
    with assms l show "err = e1 \<and> s' = s1" by (simp add: restore_headers_words_def)
  qed
qed

lemma restore_headers_data_did:
  assumes "restore_headers_data E h s = (err, s')"
  shows "did E s (restore_plan E h) err s'"
proof (cases "pcie_cap E = 0")
  case True
  with assms have "restore_headers_words E h s = (err, s')" by (simp add: restore_headers_data_def)
  from restore_headers_words_did [OF this] True show ?thesis by (simp add: restore_plan_def)
next
  case False
  let ?o1 = "pcie_cap E + PCI_EXP_DEVCTL (cfg E)" and ?o2 = "pcie_cap E + PCI_EXP_LNKCTL (cfg E)"
  let ?v1 = "ucast (h (?o1 div 4)) :: u16" and ?v2 = "ucast (h (?o2 div 4)) :: u16"
  let ?rest = "map (\<lambda>i. Pci_write_config_dword (i * 4) (h i))
                   (filter (\<lambda>i. i * 4 \<noteq> PCI_COMMAND (cfg E)) [0..<16]) @
                 [Pci_write_config_dword (PCI_COMMAND (cfg E)) (h (PCI_COMMAND (cfg E) div 4))]"
  obtain rc1 s1 where w1: "pci_write_config_word E ?o1 ?v1 s = (rc1, s1)"
    by (cases "pci_write_config_word E ?o1 ?v1 s")
  obtain rc2 s2 where w2: "pci_write_config_word E ?o2 ?v2 s1 = (rc2, s2)"
    by (cases "pci_write_config_word E ?o2 ?v2 s1")
  have inner: "did E s1 ([Pci_write_config_word ?o2 ?v2] @ ?rest) err s'" if r1: "rc1 = 0"
  proof (rule did_append [OF did_write_word [OF w2]])
    assume "(if rc2 \<noteq> 0 then - ENODEV else 0) = 0"
    then have "rc2 = 0" by (simp add: ENODEV_def split: if_splits)
    with assms False w1 w2 r1 have "restore_headers_words E h s2 = (err, s')"
      by (simp add: restore_headers_data_def Let_def)
    then show "did E s2 ?rest err s'" by (rule restore_headers_words_did)
  next
    assume "(if rc2 \<noteq> 0 then - ENODEV else 0) \<noteq> 0"
    then have "rc2 \<noteq> 0" by (simp split: if_splits)
    with assms False w1 w2 r1 show "err = (if rc2 \<noteq> 0 then - ENODEV else 0) \<and> s' = s2"
      by (simp add: restore_headers_data_def Let_def)
  qed
  have "did E s ([Pci_write_config_word ?o1 ?v1] @ [Pci_write_config_word ?o2 ?v2] @ ?rest) err s'"
  proof (rule did_append [OF did_write_word [OF w1]])
    assume "(if rc1 \<noteq> 0 then - ENODEV else 0) = 0"
    then have "rc1 = 0" by (simp add: ENODEV_def split: if_splits)
    then show "did E s1 ([Pci_write_config_word ?o2 ?v2] @ ?rest) err s'" by (rule inner)
  next
    assume "(if rc1 \<noteq> 0 then - ENODEV else 0) \<noteq> 0"
    then have "rc1 \<noteq> 0" by (simp split: if_splits)
    with assms False w1 show "err = (if rc1 \<noteq> 0 then - ENODEV else 0) \<and> s' = s1"
      by (simp add: restore_headers_data_def Let_def)
  qed
  with False show ?thesis by (simp add: restore_plan_def)
qed

lemma save_headers_loop_did:
  "save_headers_loop E is h s = (err, h', s') \<Longrightarrow>
     did E s (map (\<lambda>i. Pci_read_config_dword (i * 4)) (filter (\<lambda>i. i \<noteq> 22 \<and> i \<noteq> 23) is)) err s'"
proof (induction "is" arbitrary: h s)
  case Nil
  then show ?case by (simp add: did_nil)
next
  case (Cons i "is")
  show ?case
  proof (cases "i = 22 \<or> i = 23")
    case True
    with Cons show ?thesis by auto
  next
    case False
    obtain rc v where cv: "cfg_access E (n_cfg s) = (rc, v)" by (cases "cfg_access E (n_cfg s)")
    let ?s1 = "emit (Pci_read_config_dword (i * 4)) (s\<lparr>n_cfg := n_cfg s + 1\<rparr>)"
    have one: "did E s [Pci_read_config_dword (i * 4)] (if rc \<noteq> 0 then - ENODEV else 0) ?s1"
      by (simp add: did_def emit_fields cv)
    have "did E s ([Pci_read_config_dword (i * 4)] @
              map (\<lambda>i. Pci_read_config_dword (i * 4)) (filter (\<lambda>i. i \<noteq> 22 \<and> i \<noteq> 23) is)) err s'"
    proof (rule did_append [OF one])
      assume "(if rc \<noteq> 0 then - ENODEV else 0) = 0"
      then have "rc = 0" by (simp add: ENODEV_def split: if_splits)
      with Cons.prems False cv have "save_headers_loop E is (h(i := v)) ?s1 = (err, h', s')"
        by (simp add: Let_def)
      then show "did E ?s1 (map (\<lambda>i. Pci_read_config_dword (i * 4)) (filter (\<lambda>i. i \<noteq> 22 \<and> i \<noteq> 23) is)) err s'"
        by (rule Cons.IH)
    next
      assume "(if rc \<noteq> 0 then - ENODEV else 0) \<noteq> 0"
      then have "rc \<noteq> 0" by (simp split: if_splits)
      with Cons.prems False cv show "err = (if rc \<noteq> 0 then - ENODEV else 0) \<and> s' = ?s1"
        by (auto simp: Let_def)
    qed
    with False show ?thesis by simp
  qed
qed

lemma save_headers_loop_untouched:
  "save_headers_loop E is h s = (err, h', s') \<Longrightarrow> i \<notin> set is \<or> i = 22 \<or> i = 23 \<Longrightarrow> h' i = h i"
  by (induction "is" arbitrary: h s) (auto simp: Let_def split: if_splits prod.splits)

text \<open>
  Claim C7, as the code has it. \<open>__save_headers_data\<close> zeroes the buffer and reads
  the words 0 to 63 other than 22 and 23 in ascending order, each at four times its
  index; it stops at the first read that fails and returns \<open>-ENODEV\<close>; the words 22
  and 23 of the buffer stay zero. \<open>__restore_headers_data\<close> writes the sixteen bits of
  the device control and of the link control word first if the device has the
  capability, then the words 0 to 15 other than the one at byte offset
  \<open>PCI_COMMAND\<close>, and the word at \<open>PCI_COMMAND\<close> last (index \<open>PCI_COMMAND / 4\<close>,
  which is index 1 at offset 4 with the value of the kernel's header); it stops at the
  first write that fails and returns \<open>-ENODEV\<close>, and writes nothing else, so nothing
  is rolled back.
\<close>

theorem headers_save_restore:
  "(save_headers_data E s = (err, h, s') \<longrightarrow>
      ran_plan E s save_plan err s' \<and> h 22 = 0 \<and> h 23 = 0) \<and>
   (restore_headers_data E h0 s = (err, s') \<longrightarrow> ran_plan E s (restore_plan E h0) err s')"
proof -
  have "ran_plan E s save_plan err s'" if "save_headers_data E s = (err, h, s')"
    using that save_headers_loop_did [of E "[0..<64]" _ s err h s']
    by (simp add: save_headers_data_def save_plan_def saved_indices_def did_ran_plan)
  moreover have "h 22 = 0 \<and> h 23 = 0" if "save_headers_data E s = (err, h, s')"
    using that save_headers_loop_untouched [of E "[0..<64]" _ s err h s' 22]
      save_headers_loop_untouched [of E "[0..<64]" _ s err h s' 23]
    by (simp add: save_headers_data_def)
  moreover have "ran_plan E s (restore_plan E h0) err s'" if "restore_headers_data E h0 s = (err, s')"
    using that by (intro did_ran_plan restore_headers_data_did)
  ultimately show ?thesis by blast
qed

lemmas cfg_defs =
  restore_headers_data_def restore_headers_words_def pci_write_config_dword_def
  pci_write_config_word_def header_example_def upt_rec [of _ "numeral n" for n]

theorem headers_save_restore_witness:
  "restore_headers_data env_idle header_example (state0 SWITCHX_PCI_DEV_ID) =
     (0, snd (restore_headers_data env_idle header_example (state0 SWITCHX_PCI_DEV_ID))) \<and>
   ran_plan env_idle (state0 SWITCHX_PCI_DEV_ID) (restore_plan env_idle header_example) 0
     (snd (restore_headers_data env_idle header_example (state0 SWITCHX_PCI_DEV_ID))) \<and>
   save_headers_data env_idle (state0 SWITCHX_PCI_DEV_ID) =
     (fst (save_headers_data env_idle (state0 SWITCHX_PCI_DEV_ID)),
      fst (snd (save_headers_data env_idle (state0 SWITCHX_PCI_DEV_ID))),
      snd (snd (save_headers_data env_idle (state0 SWITCHX_PCI_DEV_ID)))) \<and>
   ran_plan env_idle (state0 SWITCHX_PCI_DEV_ID) save_plan
     (fst (save_headers_data env_idle (state0 SWITCHX_PCI_DEV_ID)))
     (snd (snd (save_headers_data env_idle (state0 SWITCHX_PCI_DEV_ID))))"
proof -
  let ?s = "state0 SWITCHX_PCI_DEV_ID"
  let ?r = "restore_headers_data env_idle header_example ?s"
  let ?v = "save_headers_data env_idle ?s"
  have "fst ?r = 0"
    by (simp add: cfg_defs env_idle_def linux_build_def state0_def emit_def)
  then have r: "?r = (0, snd ?r)" by (metis prod.collapse)
  have v: "?v = (fst ?v, fst (snd ?v), snd (snd ?v))" by simp
  from headers_save_restore [of env_idle ?s 0 "fst (snd ?v)" "snd ?r" header_example] r
  have "ran_plan env_idle ?s (restore_plan env_idle header_example) 0 (snd ?r)" by blast
  moreover from headers_save_restore [of env_idle ?s "fst ?v" "fst (snd ?v)" "snd (snd ?v)" header_example] v
  have "ran_plan env_idle ?s save_plan (fst ?v) (snd (snd ?v))" by blast
  ultimately show ?thesis using r v by blast
qed

text \<open>
  Claim C7 as it is written fails on the index of the command word. With the offsets
  of the kernel's header the word of index 4 (offset 16) is the fourth write, and the
  last write is the word of index 1 at offset 4.
\<close>

theorem restore_command_word_index_1:
  "new_events (state0 SWITCHX_PCI_DEV_ID)
     (snd (restore_headers_data env_idle header_example (state0 SWITCHX_PCI_DEV_ID))) =
   [Pci_write_config_dword 0 256, Pci_write_config_dword 8 258, Pci_write_config_dword 12 259,
    Pci_write_config_dword 16 260, Pci_write_config_dword 20 261, Pci_write_config_dword 24 262,
    Pci_write_config_dword 28 263, Pci_write_config_dword 32 264, Pci_write_config_dword 36 265,
    Pci_write_config_dword 40 266, Pci_write_config_dword 44 267, Pci_write_config_dword 48 268,
    Pci_write_config_dword 52 269, Pci_write_config_dword 56 270, Pci_write_config_dword 60 271,
    Pci_write_config_dword 4 257]"
  by (simp add: cfg_defs env_idle_def linux_build_def state0_def emit_def new_events_def)

subsection \<open>Reset Orchestrator\<close>

lemma extends_quietlyI:
  "trace s' = trace s @ tr \<Longrightarrow> \<forall>x \<in> set tr. \<not> is_dispatch (snd x) \<Longrightarrow> extends_quietly s s'"
  by (simp add: extends_quietly_def new_trace_def list_all_iff)

lemma extends_quietlyI_events:
  "trace s' = trace s @ map (Pair f) es \<Longrightarrow> \<forall>e \<in> set es. \<not> is_dispatch e \<Longrightarrow> extends_quietly s s'"
  by (rule extends_quietlyI) auto

lemma extends_quietlyE:
  assumes "extends_quietly s s'"
  obtains tr where "trace s' = trace s @ tr" "\<forall>x \<in> set tr. \<not> is_dispatch (snd x)"
proof
  from assms have "take (length (trace s)) (trace s') = trace s" by (simp add: extends_quietly_def)
  then show "trace s' = trace s @ new_trace s s'"
    by (metis append_take_drop_id new_trace_def)
  from assms show "\<forall>x \<in> set (new_trace s s'). \<not> is_dispatch (snd x)"
    by (simp add: extends_quietly_def list_all_iff)
qed

lemma extends_quietly_refl: "extends_quietly s s"
  by (rule extends_quietlyI [of _ _ "[]"]) simp_all

lemma extends_quietly_trans:
  assumes "extends_quietly s s1" "extends_quietly s1 s2"
  shows "extends_quietly s s2"
proof -
  from assms(1) obtain t1 where t1: "trace s1 = trace s @ t1" "\<forall>x \<in> set t1. \<not> is_dispatch (snd x)"
    by (rule extends_quietlyE)
  from assms(2) obtain t2 where t2: "trace s2 = trace s1 @ t2" "\<forall>x \<in> set t2. \<not> is_dispatch (snd x)"
    by (rule extends_quietlyE)
  show ?thesis
    by (rule extends_quietlyI [of _ _ "t1 @ t2"]) (use t1 t2 in auto)
qed

lemma extends_quietly_same_trace: "trace s' = trace s \<Longrightarrow> extends_quietly s s'"
  by (rule extends_quietlyI [of _ _ "[]"]) simp_all

lemma extends_quietly_emit: "\<not> is_dispatch e \<Longrightarrow> extends_quietly s (emit e s)"
  by (rule extends_quietlyI [of _ _ "[(dev_sw_rst_flow s, e)]"]) (simp_all add: emit_fields)

lemma extends_quietly_msleep: "extends_quietly s (msleep E n s)"
  by (rule extends_quietlyI [of _ _ "[(dev_sw_rst_flow s, Msleep (unat n))]"])
     (simp_all add: msleep_fields is_dispatch_def)

lemma extends_quietly_elapse: "extends_quietly s (elapse E d s)"
  by (rule extends_quietly_same_trace) (simp add: elapse_fields)

lemma wait_quiet:
  assumes "wait_for_system_ready E d s = (ret, tw, s')"
  shows "extends_quietly s s'"
  using assms
proof (cases rule: wait_cases)
  case nomap
  show ?thesis unfolding nomap(4)
    by (rule extends_quietlyI [of _ _ "[(dev_sw_rst_flow s, Ioremap SX_SYSTEM_STATUS_REG_OFFSET False)]"])
       (simp_all add: emit_fields is_dispatch_def)
next
  case (mapped s2)
  let ?s1 = "emit (Printk_wait_for_reset d)
            (elapse E 0 (elapse E 0
               (emit (Ioremap SX_SYSTEM_STATUS_REG_OFFSET True) (s\<lparr>n_ioremap := n_ioremap s + 1\<rparr>))))"
  have a: "extends_quietly s ?s1"
    by (rule extends_quietlyI [of _ _ "[(dev_sw_rst_flow s, Ioremap SX_SYSTEM_STATUS_REG_OFFSET True),
          (dev_sw_rst_flow s, Printk_wait_for_reset d)]"])
       (simp_all add: emit_fields elapse_fields is_dispatch_def)
  from poll_status_effect [OF mapped(2)] obtain es where
    es: "trace s2 = trace ?s1 @ map (Pair (dev_sw_rst_flow ?s1)) es" "sleeps_between_reads es"
    by blast
  have "\<forall>e \<in> set es. \<not> is_dispatch e"
    by (auto simp: is_dispatch_def dest!: sleeps_between_reads_no_other [OF es(2)])
  with es(1) have b: "extends_quietly ?s1 s2" by (rule extends_quietlyI_events)
  have c: "extends_quietly s2 s'" unfolding mapped(3)
    by (rule extends_quietly_emit) (simp add: is_dispatch_def)
  from a b c show ?thesis by (blast intro: extends_quietly_trans)
qed

lemma do_legacy_reset_quiet:
  assumes "do_legacy_reset E s = (err, s')"
  shows "extends_quietly s s'"
proof -
  from assms obtain ok es where
    t: "trace s' = trace s @ (dev_sw_rst_flow s, Ioremap SX_RESET_BASE ok) # map (Pair (dev_sw_rst_flow s)) es"
    by (rule do_legacy_reset_trace)
  from do_legacy_reset_effect [OF assms]
  have "\<forall>e \<in> set es. \<not> is_dispatch e"
    using t by (auto simp: is_dispatch_def split: if_splits)
  then have "\<forall>e \<in> set (Ioremap SX_RESET_BASE ok # es). \<not> is_dispatch e"
    by (simp add: is_dispatch_def)
  moreover from t have "trace s' = trace s @ map (Pair (dev_sw_rst_flow s)) (Ioremap SX_RESET_BASE ok # es)"
    by simp
  ultimately show ?thesis by (rule extends_quietlyI_events [rotated])
qed

lemma poll_vendor_id_quiet:
  assumes "poll_vendor_id E b s = (vendor, s')"
  shows "extends_quietly s s'"
proof -
  from poll_vendor_id_effect [OF assms] obtain es where
    "trace s' = trace s @ map (Pair (dev_sw_rst_flow s)) es"
    "set es \<subseteq> range Pci_read_config_word \<union> range Msleep" by blast
  then show ?thesis
    by (elim extends_quietlyI_events) (auto simp: is_dispatch_def)
qed

lemma out_dev_sw_rst_flow_quiet:
  "extends_quietly s s1 \<Longrightarrow> extends_quietly s (snd (out_dev_sw_rst_flow err s1))"
  by (erule extends_quietly_trans) (simp add: out_dev_sw_rst_flow_def extends_quietly_same_trace)

lemma sdk_sx_reset_quiet: "extends_quietly s (snd (sdk_sx_reset E s))"
proof -
  let ?d = "get_chip_reset_duration (cfg E) s"
  obtain e1 tw1 s1 where w1: "wait_for_system_ready E ?d s = (e1, tw1, s1)"
    by (cases "wait_for_system_ready E ?d s")
  let ?s3 = "emit (Sx_ACCESS_REG_MRSR (mrsr_ret E)) (s1\<lparr>dev_sw_rst_flow := True\<rparr>)"
  obtain e2 tw2 s4 where w2: "wait_for_system_ready E 0 ?s3 = (e2, tw2, s4)"
    by (cases "wait_for_system_ready E 0 ?s3")
  obtain e3 tw3 s5 where w3: "wait_for_system_ready E ?d s4 = (e3, tw3, s5)"
    by (cases "wait_for_system_ready E ?d s4")
  have q1: "extends_quietly s s1" using w1 by (rule wait_quiet)
  have "extends_quietly s1 ?s3"
    by (rule extends_quietly_trans [of _ "s1\<lparr>dev_sw_rst_flow := True\<rparr>"])
       (simp_all add: extends_quietly_same_trace extends_quietly_emit is_dispatch_def)
  with q1 have q3: "extends_quietly s ?s3" by (rule extends_quietly_trans)
  from q3 wait_quiet [OF w2] have q4: "extends_quietly s s4" by (rule extends_quietly_trans)
  from q4 wait_quiet [OF w3] have q5: "extends_quietly s s5" by (rule extends_quietly_trans)
  show ?thesis
  proof (cases "mrsr_ret E = 0")
    case False
    with q1 q3 show ?thesis
      by (simp add: sdk_sx_reset_def w1 Let_def reset_dev_by_mrsr_reg_def out_dev_sw_rst_flow_quiet)
  next
    case True
    from q1 q4 q5 show ?thesis
      by (simp add: sdk_sx_reset_def w1 w2 [unfolded True] w3 True Let_def reset_dev_by_mrsr_reg_def
          out_dev_sw_rst_flow_quiet)
  qed
qed

lemma legacy_reset_quiet: "extends_quietly s (snd (legacy_reset E s))"
proof -
  let ?d = "get_chip_reset_duration (cfg E) s * 2"
  obtain e1 tw1 s1 where w1: "wait_for_system_ready E ?d s = (e1, tw1, s1)"
    by (cases "wait_for_system_ready E ?d s")
  let ?s2 = "s1\<lparr>dev_sw_rst_flow := True\<rparr>"
  obtain e2 s3 where l: "do_legacy_reset E ?s2 = (e2, s3)" by (cases "do_legacy_reset E ?s2")
  obtain e3 tw3 s4 where w3: "wait_for_system_ready E ?d s3 = (e3, tw3, s4)"
    by (cases "wait_for_system_ready E ?d s3")
  have q1: "extends_quietly s s1" using w1 by (rule wait_quiet)
  have "extends_quietly s1 ?s2" by (simp add: extends_quietly_same_trace)
  with q1 have q2: "extends_quietly s ?s2" by (rule extends_quietly_trans)
  from q2 do_legacy_reset_quiet [OF l] have q3: "extends_quietly s s3" by (rule extends_quietly_trans)
  from q3 wait_quiet [OF w3] have q4: "extends_quietly s s4" by (rule extends_quietly_trans)
  show ?thesis
    using q1 q3 q4 extends_quietly_refl [of s]
    by (simp add: legacy_reset_def w1 l w3 Let_def out_dev_sw_rst_flow_quiet)
qed

lemma legacy_reset_SwitchX_quiet_ext: "extends_quietly s (snd (legacy_reset_SwitchX E s))"
proof -
  obtain e1 s1 where l: "do_legacy_reset E s = (e1, s1)" by (cases "do_legacy_reset E s")
  let ?end = "fst (tick E 0 (clock s1)) + SX_RESET_TIMEOUT_JIFFIES (cfg E)"
  obtain vendor s2 where v: "poll_vendor_id E ?end (elapse E 0 s1) = (vendor, s2)"
    by (cases "poll_vendor_id E ?end (elapse E 0 s1)")
  have q1: "extends_quietly s s1" using l by (rule do_legacy_reset_quiet)
  from q1 extends_quietly_elapse have "extends_quietly s (elapse E 0 s1)"
    by (rule extends_quietly_trans)
  from this poll_vendor_id_quiet [OF v] have q2: "extends_quietly s s2" by (rule extends_quietly_trans)
  show ?thesis
    using q1 q2 extends_quietly_refl [of s]
    by (simp add: legacy_reset_SwitchX_def l v Let_def read_jiffies_eq)
qed

lemma perform_dev_sw_reset_quiet: "extends_quietly s (snd (perform_dev_sw_reset E s))"
proof -
  obtain e1 s1 where k: "sdk_sx_reset E s = (e1, s1)" by (cases "sdk_sx_reset E s")
  have q1: "extends_quietly s s1" using sdk_sx_reset_quiet [of s E] by (simp add: k)
  from q1 legacy_reset_quiet [of s1 E] have q2: "extends_quietly s (snd (legacy_reset E s1))"
    by (rule extends_quietly_trans)
  show ?thesis
    using q1 q2 legacy_reset_SwitchX_quiet_ext [of s E] extends_quietly_refl [of s]
    by (cases "device s") (simp_all add: perform_dev_sw_reset_def k)
qed

lemma did_quiet:
  assumes "did E s plan err s'" "\<forall>e \<in> set plan. \<not> is_dispatch e"
  shows "extends_quietly s s'"
proof -
  from assms(1) have "trace s' = trace s @ map (Pair (dev_sw_rst_flow s))
      (take (attempts E (n_cfg s) (length plan)) plan)" by (simp add: did_def)
  moreover from assms(2) have "\<forall>e \<in> set (take (attempts E (n_cfg s) (length plan)) plan). \<not> is_dispatch e"
    by (auto dest: in_set_takeD)
  ultimately show ?thesis by (rule extends_quietlyI_events)
qed

lemma restore_headers_data_quiet:
  assumes "restore_headers_data E h s = (err, s')"
  shows "extends_quietly s s'"
  using restore_headers_data_did [OF assms]
  by (rule did_quiet) (auto simp: restore_plan_def is_dispatch_def)

lemma save_headers_data_quiet:
  assumes "save_headers_data E s = (err, h, s')"
  shows "extends_quietly s s'"
  using save_headers_loop_did [OF assms [unfolded save_headers_data_def]]
  by (rule did_quiet) (auto simp: is_dispatch_def)

lemma gate_round_fields:
  "dev_sw_rst_flow (gate_round E s) = dev_sw_rst_flow s"
  "device (gate_round E s) = device s"
  "trace (gate_round E s) = trace s @ [(dev_sw_rst_flow s, Msleep 100)]"
  "fst (read_jiffies E (gate_round E s)) = fst (sleep_then_read E 100 (tick E 0 (clock s)))"
  by (simp_all add: gate_round_def read_jiffies_eq msleep_fields elapse_fields sleep_then_read_def)

lemma read_jiffies_fields:
  "reset_trigger (snd (read_jiffies E s)) = reset_trigger s"
  "trace (snd (read_jiffies E s)) = trace s"
  "dev_sw_rst_flow (snd (read_jiffies E s)) = dev_sw_rst_flow s"
  by (simp_all add: read_jiffies_eq elapse_fields)

text \<open>
  The loop of the gate, round by round: it makes \<open>n\<close> sleeps, where \<open>n\<close> is the
  first round at which the flag is found set or the clock is found at or after the
  deadline; and all its sleeps but the last are over before the deadline.
\<close>

lemma wait_reset_trigger_rounds:
  "\<exists>n. (\<forall>k<n. reset_trigger ((gate_round E ^^ k) s) = 0 \<and>
              time_before (fst (read_jiffies E ((gate_round E ^^ k) s))) b) \<and>
       (reset_trigger ((gate_round E ^^ n) s) \<noteq> 0 \<or>
        \<not> time_before (fst (read_jiffies E ((gate_round E ^^ n) s))) b) \<and>
       wait_reset_trigger E b s =
         (if reset_trigger ((gate_round E ^^ n) s) \<noteq> 0 then (gate_round E ^^ n) s
          else snd (read_jiffies E ((gate_round E ^^ n) s))) \<and>
       trace ((gate_round E ^^ n) s) = trace s @ replicate n (dev_sw_rst_flow s, Msleep 100) \<and>
       (0 < n \<longrightarrow> (n - 1) * min (unat (msecs_to_jiffies (cfg E) 100) + 1) MAX_STEP + 1
                  \<le> unat (b - fst (read_jiffies E s)))"
proof (induction E b s rule: wait_reset_trigger.induct)
  case (1 E b s)
  let ?R = "\<lambda>s k. (gate_round E ^^ k) s"
  let ?L = "min (unat (msecs_to_jiffies (cfg E) 100) + 1) MAX_STEP"
  let ?P = "\<lambda>s n. (\<forall>k<n. reset_trigger (?R s k) = 0 \<and>
              time_before (fst (read_jiffies E (?R s k))) b) \<and>
       (reset_trigger (?R s n) \<noteq> 0 \<or> \<not> time_before (fst (read_jiffies E (?R s n))) b) \<and>
       wait_reset_trigger E b s =
         (if reset_trigger (?R s n) \<noteq> 0 then ?R s n else snd (read_jiffies E (?R s n))) \<and>
       trace (?R s n) = trace s @ replicate n (dev_sw_rst_flow s, Msleep 100) \<and>
       (0 < n \<longrightarrow> (n - 1) * ?L + 1 \<le> unat (b - fst (read_jiffies E s)))"
  show ?case
  proof (cases "reset_trigger s = 0 \<and> time_before (fst (read_jiffies E s)) b")
    case False
    then have "wait_reset_trigger E b s =
        (if reset_trigger s \<noteq> 0 then s else snd (read_jiffies E s))"
      by (subst wait_reset_trigger.simps) (auto simp: split_beta)
    with False have "?P s 0" by auto
    then show ?thesis ..
  next
    case True
    let ?s1 = "gate_round E s"
    have rj: "(fst (read_jiffies E s), snd (read_jiffies E s)) = read_jiffies E s" by simp
    from True have flag: "reset_trigger s = 0" and tb: "time_before (fst (read_jiffies E s)) b"
      by simp_all
    from "1.IH" [OF flag refl rj tb] obtain n where n: "?P ?s1 n"
      unfolding gate_round_def [symmetric] ..
    from True have w: "wait_reset_trigger E b s = wait_reset_trigger E b ?s1"
      by (subst wait_reset_trigger.simps) (simp add: split_beta gate_round_def)
    have sw: "?R s (Suc k) = ?R ?s1 k" for k by (simp add: funpow_swap1)
    have a: "reset_trigger (?R s k) = 0 \<and> time_before (fst (read_jiffies E (?R s k))) b"
      if "k < Suc n" for k
    proof (cases k)
      case 0
      with True show ?thesis by simp
    next
      case (Suc k')
      with that n show ?thesis unfolding Suc sw by simp
    qed
    have tr: "trace (?R s (Suc n)) = trace s @ replicate (Suc n) (dev_sw_rst_flow s, Msleep 100)"
      unfolding sw using n by (simp add: gate_round_fields replicate_append_same)
    have bound: "n * ?L + 1 \<le> unat (b - fst (read_jiffies E s))"
    proof (cases "n = 0")
      case True
      with time_before_pos [OF tb] show ?thesis by simp
    next
      case False
      with n have ih: "(n - 1) * ?L + 1 \<le> unat (b - fst (read_jiffies E ?s1))"
        and tb1: "time_before (fst (read_jiffies E ?s1)) b"
        by auto
      obtain d where d: "fst (sleep_then_read E 100 (tick E 0 (clock s))) =
          fst (tick E 0 (clock s)) + of_nat d" "?L \<le> d" "d < 9223372036854775808"
        by (rule sleep_then_read_step)
      have j: "fst (read_jiffies E s) = fst (tick E 0 (clock s))" by (simp add: read_jiffies_eq)
      from tb1 have "time_before (fst (read_jiffies E s) + of_nat d) b"
        by (simp add: gate_round_fields d(1) j)
      from time_before_step [OF d(3) this]
      have "unat (b - fst (read_jiffies E ?s1)) + d = unat (b - fst (read_jiffies E s))"
        by (simp add: gate_round_fields d(1) j)
      with ih d(2) have "(n - 1) * ?L + 1 + ?L \<le> unat (b - fst (read_jiffies E s))" by linarith
      moreover from False have "n * ?L = (n - 1) * ?L + ?L" by (cases n) simp_all
      ultimately show ?thesis by linarith
    qed
    from n a tr bound w have "?P s (Suc n)" unfolding sw by simp
    then show ?thesis ..
  qed
qed

lemma wait_reset_trigger_trace:
  "\<exists>n. trace (wait_reset_trigger E b s) = trace s @ replicate n (dev_sw_rst_flow s, Msleep 100)"
proof -
  from wait_reset_trigger_rounds [of E s b] obtain n where
    w: "wait_reset_trigger E b s =
         (if reset_trigger ((gate_round E ^^ n) s) \<noteq> 0 then (gate_round E ^^ n) s
          else snd (read_jiffies E ((gate_round E ^^ n) s)))"
    and t: "trace ((gate_round E ^^ n) s) = trace s @ replicate n (dev_sw_rst_flow s, Msleep 100)"
    by blast
  from t have "trace (wait_reset_trigger E b s) = trace s @ replicate n (dev_sw_rst_flow s, Msleep 100)"
    unfolding w by (simp add: read_jiffies_eq elapse_fields)
  then show ?thesis ..
qed

lemma reset_trigger_gate_quiet: "extends_quietly s (reset_trigger_gate E s)"
proof -
  let ?b = "fst (read_jiffies E s) + RESET_TRIGGER_TIMEOUT (cfg E)"
  let ?w = "wait_reset_trigger E ?b (snd (read_jiffies E s))"
  from wait_reset_trigger_trace [of E ?b "snd (read_jiffies E s)"] obtain n where
    "trace ?w = trace s @ map (Pair (dev_sw_rst_flow s)) (replicate n (Msleep 100))"
    by (auto simp: read_jiffies_eq elapse_fields)
  then have "extends_quietly s ?w"
    by (rule extends_quietlyI_events) (simp add: is_dispatch_def)
  moreover have "extends_quietly ?w (?w\<lparr>reset_trigger := 1\<rparr>)"
    by (simp add: extends_quietly_same_trace)
  ultimately show ?thesis
    by (auto simp: reset_trigger_gate_def Let_def split_beta extends_quietly_refl
        intro: extends_quietly_trans)
qed

text \<open>The gate as a whole.\<close>

lemma reset_trigger_gate_effect:
  "reset_trigger (reset_trigger_gate E s) \<noteq> 0 \<and>
   (reset_trigger s \<noteq> 0 \<longrightarrow> reset_trigger_gate E s = s) \<and>
   (reset_trigger s = 0 \<longrightarrow>
      (\<exists>n. (\<forall>k<n. reset_trigger ((gate_round E ^^ k) (snd (read_jiffies E s))) = 0 \<and>
                  time_before (fst (read_jiffies E ((gate_round E ^^ k) (snd (read_jiffies E s)))))
                    (fst (read_jiffies E s) + RESET_TRIGGER_TIMEOUT (cfg E))) \<and>
           (reset_trigger ((gate_round E ^^ n) (snd (read_jiffies E s))) \<noteq> 0 \<or>
            \<not> time_before (fst (read_jiffies E ((gate_round E ^^ n) (snd (read_jiffies E s)))))
                (fst (read_jiffies E s) + RESET_TRIGGER_TIMEOUT (cfg E))) \<and>
           reset_trigger_gate E s =
             (if reset_trigger ((gate_round E ^^ n) (snd (read_jiffies E s))) \<noteq> 0
              then (gate_round E ^^ n) (snd (read_jiffies E s))
              else (snd (read_jiffies E ((gate_round E ^^ n) (snd (read_jiffies E s)))))
                     \<lparr>reset_trigger := 1\<rparr>) \<and>
           new_events s (reset_trigger_gate E s) = replicate n (Msleep 100) \<and>
           (0 < n \<longrightarrow> (n - 1) * min (unat (msecs_to_jiffies (cfg E) 100) + 1) MAX_STEP
                        < unat (RESET_TRIGGER_TIMEOUT (cfg E)))))"
proof (cases "reset_trigger s = 0")
  case False
  then show ?thesis by (simp add: reset_trigger_gate_def)
next
  case True
  let ?s1 = "snd (read_jiffies E s)"
  let ?j = "fst (read_jiffies E s)"
  let ?b = "?j + RESET_TRIGGER_TIMEOUT (cfg E)"
  let ?R = "\<lambda>k. (gate_round E ^^ k) ?s1"
  let ?L = "min (unat (msecs_to_jiffies (cfg E) 100) + 1) MAX_STEP"
  from wait_reset_trigger_rounds [of E ?s1 ?b] obtain n where
    a: "\<forall>k<n. reset_trigger (?R k) = 0 \<and> time_before (fst (read_jiffies E (?R k))) ?b"
    and st: "reset_trigger (?R n) \<noteq> 0 \<or> \<not> time_before (fst (read_jiffies E (?R n))) ?b"
    and w: "wait_reset_trigger E ?b ?s1 =
         (if reset_trigger (?R n) \<noteq> 0 then ?R n else snd (read_jiffies E (?R n)))"
    and t: "trace (?R n) = trace ?s1 @ replicate n (dev_sw_rst_flow ?s1, Msleep 100)"
    and bd: "0 < n \<longrightarrow> (n - 1) * ?L + 1 \<le> unat (?b - fst (read_jiffies E ?s1))"
    by blast
  have g: "reset_trigger_gate E s =
      (if reset_trigger (?R n) \<noteq> 0 then ?R n
       else (snd (read_jiffies E (?R n)))\<lparr>reset_trigger := 1\<rparr>)"
    using True by (simp add: reset_trigger_gate_def Let_def split_beta w read_jiffies_fields)
  have nz: "reset_trigger (reset_trigger_gate E s) \<noteq> 0" by (simp add: g)
  from t have "trace (reset_trigger_gate E s) = trace s @ map (Pair (dev_sw_rst_flow s)) (replicate n (Msleep 100))"
    by (simp add: g read_jiffies_fields)
  then have ev: "new_events s (reset_trigger_gate E s) = replicate n (Msleep 100)"
    by (rule new_events_append)
  have bound: "(n - 1) * ?L < unat (RESET_TRIGGER_TIMEOUT (cfg E))" if "0 < n"
  proof -
    from that bd have le: "(n - 1) * ?L + 1 \<le> unat (?b - fst (read_jiffies E ?s1))" by simp
    from that a have tb: "time_before (fst (read_jiffies E ?s1)) ?b" by auto
    let ?g = "min (0 + ticks E (snd (clock ?s1))) MAX_STEP"
    have j1: "fst (read_jiffies E ?s1) = ?j + of_nat ?g"
      by (simp add: read_jiffies_eq elapse_fields tick_def)
    have "?g < 9223372036854775808" by (simp add: MAX_STEP_def min_def)
    from time_before_step [OF this tb [unfolded j1]]
    have "unat (?b - fst (read_jiffies E ?s1)) \<le> unat (RESET_TRIGGER_TIMEOUT (cfg E))"
      unfolding j1 by simp
    with le show ?thesis by linarith
  qed
  from True nz a st g ev bound show ?thesis by blast
qed

lemma sx_reset_restore_out:
  "\<exists>err sN. extends_quietly s sN \<and> sx_reset_restore E b hca s = sx_reset_out E b err sN"
proof (cases "device s = SWITCHX_PCI_DEV_ID")
  case False
  then have "sx_reset_restore E b hca s = sx_reset_out E b 0 s"
    by (simp add: sx_reset_restore_def)
  with extends_quietly_refl [of s] show ?thesis by blast
next
  case True
  show ?thesis
  proof (cases hca)
    case None
    with True have "sx_reset_restore E b hca s = sx_reset_out E b 0 s"
      by (simp add: sx_reset_restore_def)
    with extends_quietly_refl [of s] show ?thesis by blast
  next
    case (Some h)
    obtain err s1 where r: "restore_headers_data E h s = (err, s1)"
      by (cases "restore_headers_data E h s")
    with True Some have "sx_reset_restore E b hca s = sx_reset_out E b err s1"
      by (simp add: sx_reset_restore_def)
    with restore_headers_data_quiet [OF r] show ?thesis by blast
  qed
qed

lemma quiet_no_dispatch:
  "extends_quietly s s' \<Longrightarrow> filter is_dispatch (new_events s s') = []"
  by (auto simp: extends_quietly_def new_events_def new_trace_def list_all_iff filter_empty_conv)

lemma sx_reset_out_False: "sx_reset_out E False err s = (err, s)"
  by (simp add: sx_reset_out_def)

lemma dispatched_twice:
  assumes q1: "extends_quietly s s3"
    and q2: "extends_quietly (emit (Sx_core_dispatch_event SX_DEV_EVENT_PRE_RESET None) s3) sN"
    and r: "sx_reset_out E True err sN = (ret, s')"
  shows "filter is_dispatch (new_events s s') =
           [Sx_core_dispatch_event SX_DEV_EVENT_PRE_RESET None,
            Sx_core_dispatch_event SX_DEV_EVENT_POST_RESET (Some err)] \<and>
         last (new_events s s') = Sx_core_dispatch_event SX_DEV_EVENT_POST_RESET (Some err) \<and>
         ret = snd (post_reset_handler E err)"
proof -
  from q1 obtain t1 where t1: "trace s3 = trace s @ t1" "\<forall>x \<in> set t1. \<not> is_dispatch (snd x)"
    by (rule extends_quietlyE)
  from q2 obtain t2 where
    t2: "trace sN = trace (emit (Sx_core_dispatch_event SX_DEV_EVENT_PRE_RESET None) s3) @ t2"
    "\<forall>x \<in> set t2. \<not> is_dispatch (snd x)"
    by (rule extends_quietlyE)
  from r have s': "s' = emit (Sx_core_dispatch_event SX_DEV_EVENT_POST_RESET (Some err)) sN"
    and ret: "ret = snd (post_reset_handler E err)"
    by (auto simp: sx_reset_out_def Let_def split: prod.splits)
  have "trace s' = trace s @ t1 @ [(dev_sw_rst_flow s3, Sx_core_dispatch_event SX_DEV_EVENT_PRE_RESET None)] @
           t2 @ [(dev_sw_rst_flow sN, Sx_core_dispatch_event SX_DEV_EVENT_POST_RESET (Some err))]"
    by (simp add: s' emit_fields t2(1) t1(1))
  then have "new_events s s' = map snd t1 @ [Sx_core_dispatch_event SX_DEV_EVENT_PRE_RESET None] @
           map snd t2 @ [Sx_core_dispatch_event SX_DEV_EVENT_POST_RESET (Some err)]"
    by (simp add: new_events_def)
  moreover have "filter is_dispatch (map snd t1) = []" "filter is_dispatch (map snd t2) = []"
    using t1(2) t2(2) by (auto simp: filter_empty_conv)
  ultimately show ?thesis using ret by (simp add: is_dispatch_def)
qed

lemma sx_reset_snapshot:
  obtains e0 hca s1 where
    "(if device s = SWITCHX_PCI_DEV_ID
      then (if \<not> kmalloc_ok E then (- ENOMEM, None, s)
            else (let (err, h, s1) = save_headers_data E s in (err, Some h, s1)))
      else (0, None, s)) = (e0, hca, s1)"
    "extends_quietly s s1"
    "(e0 = 0) = (device s = SWITCHX_PCI_DEV_ID \<longrightarrow> kmalloc_ok E \<and> fst (save_headers_data E s) = 0)"
    "s1 = (if device s = SWITCHX_PCI_DEV_ID \<and> kmalloc_ok E then snd (snd (save_headers_data E s)) else s)"
    "hca = (if device s = SWITCHX_PCI_DEV_ID \<and> kmalloc_ok E
            then Some (fst (snd (save_headers_data E s))) else None)"
    "e0 = (if device s = SWITCHX_PCI_DEV_ID
           then (if \<not> kmalloc_ok E then - ENOMEM else fst (save_headers_data E s)) else 0)"
proof (cases "device s = SWITCHX_PCI_DEV_ID")
  case False
  show ?thesis
    by (rule that [of 0 None s]) (use False in \<open>simp_all add: extends_quietly_refl\<close>)
next
  case True
  show ?thesis
  proof (cases "kmalloc_ok E")
    case False
    show ?thesis
      by (rule that [of "- ENOMEM" None s])
         (use True False in \<open>simp_all add: extends_quietly_refl ENOMEM_def\<close>)
  next
    case k: True
    obtain err h s1 where sv: "save_headers_data E s = (err, h, s1)"
      by (cases "save_headers_data E s")
    show ?thesis
      by (rule that [of err "Some h" s1])
         (use True k sv save_headers_data_quiet [OF sv] in simp_all)
  qed
qed

lemma sx_reset_restore_eq:
  "sx_reset_restore E b
     (if device s0 = SWITCHX_PCI_DEV_ID \<and> k then Some h else None) s =
   (if device s = SWITCHX_PCI_DEV_ID \<and> device s0 = SWITCHX_PCI_DEV_ID \<and> k
    then sx_reset_out E b (fst (restore_headers_data E h s)) (snd (restore_headers_data E h s))
    else sx_reset_out E b 0 s)"
  by (auto simp: sx_reset_restore_def split_beta split: bool.splits option.splits)

lemma after_gate_quiet: "extends_quietly s (after_gate E s)"
proof -
  let ?s1 = "if device s = SWITCHX_PCI_DEV_ID then snd (snd (save_headers_data E s)) else s"
  have "extends_quietly s ?s1"
    using save_headers_data_quiet [of E s] extends_quietly_refl [of s]
    by (cases "save_headers_data E s") auto
  moreover have "extends_quietly ?s1 (emit Sx_cmd_use_polling ?s1)"
    by (rule extends_quietly_emit) (simp add: is_dispatch_def)
  moreover have "extends_quietly (emit Sx_cmd_use_polling ?s1) (after_gate E s)"
    unfolding after_gate_def by (rule reset_trigger_gate_quiet)
  ultimately show ?thesis by (blast intro: extends_quietly_trans)
qed

subsection \<open>The device identifier is not changed\<close>

lemma save_headers_loop_device:
  "save_headers_loop E is h s = (err, h', s') \<Longrightarrow> device s' = device s"
  by (induction "is" arbitrary: h s) (auto simp: Let_def emit_fields split: if_splits prod.splits)

lemma gate_rounds_device: "device ((gate_round E ^^ n) s) = device s"
  by (induction n) (simp_all add: gate_round_fields)

lemma reset_trigger_gate_device: "device (reset_trigger_gate E s) = device s"
proof (cases "reset_trigger s = 0")
  case False
  then show ?thesis by (simp add: reset_trigger_gate_def)
next
  case True
  with reset_trigger_gate_effect [of E s] obtain n where
    "reset_trigger_gate E s =
             (if reset_trigger ((gate_round E ^^ n) (snd (read_jiffies E s))) \<noteq> 0
              then (gate_round E ^^ n) (snd (read_jiffies E s))
              else (snd (read_jiffies E ((gate_round E ^^ n) (snd (read_jiffies E s)))))
                     \<lparr>reset_trigger := 1\<rparr>)"
    by blast
  then show ?thesis by (simp add: gate_rounds_device read_jiffies_eq elapse_fields)
qed

lemma after_gate_device: "device (after_gate E s) = device s"
proof -
  have "device (snd (snd (save_headers_data E s))) = device s"
    using save_headers_loop_device [of E "[0..<64]" _ s]
    by (cases "save_headers_data E s") (simp add: save_headers_data_def)
  then show ?thesis
    by (simp add: after_gate_def reset_trigger_gate_device emit_fields)
qed

lemma legacy_reset_device: "device (snd (legacy_reset E s)) = device s"
proof -
  let ?d = "get_chip_reset_duration (cfg E) s * 2"
  obtain e1 tw1 s1 where w1: "wait_for_system_ready E ?d s = (e1, tw1, s1)"
    by (cases "wait_for_system_ready E ?d s")
  obtain e2 s3 where l: "do_legacy_reset E (s1\<lparr>dev_sw_rst_flow := True\<rparr>) = (e2, s3)"
    by (cases "do_legacy_reset E (s1\<lparr>dev_sw_rst_flow := True\<rparr>)")
  obtain e3 tw3 s4 where w3: "wait_for_system_ready E ?d s3 = (e3, tw3, s4)"
    by (cases "wait_for_system_ready E ?d s3")
  from wait_frame(2) [OF w1] do_legacy_reset_frame(2) [OF l] wait_frame(2) [OF w3]
  show ?thesis
    by (simp add: legacy_reset_def Let_def out_dev_sw_rst_flow_def w1 l w3)
qed

lemma legacy_reset_SwitchX_device: "device (snd (legacy_reset_SwitchX E s)) = device s"
proof -
  obtain e1 s1 where l: "do_legacy_reset E s = (e1, s1)" by (cases "do_legacy_reset E s")
  let ?end = "fst (tick E 0 (clock s1)) + SX_RESET_TIMEOUT_JIFFIES (cfg E)"
  obtain vendor s2 where v: "poll_vendor_id E ?end (elapse E 0 s1) = (vendor, s2)"
    by (cases "poll_vendor_id E ?end (elapse E 0 s1)")
  from poll_vendor_id_effect [OF v] have "device s2 = device s1" by (simp add: elapse_fields)
  with do_legacy_reset_frame(2) [OF l] show ?thesis
    by (simp add: legacy_reset_SwitchX_def l v Let_def read_jiffies_eq)
qed

lemma perform_dev_sw_reset_device: "device (snd (perform_dev_sw_reset E s)) = device s"
proof -
  obtain e1 s1 where k: "sdk_sx_reset E s = (e1, s1)" by (cases "sdk_sx_reset E s")
  from sdk_sx_reset_device [of E s] have d1: "device s1 = device s" by (simp add: k)
  from legacy_reset_device [of E s1] d1 have "device (snd (legacy_reset E s1)) = device s" by simp
  with d1 legacy_reset_SwitchX_device [of E s] show ?thesis
    by (cases "device s") (simp_all add: perform_dev_sw_reset_def k)
qed

subsection \<open>The three ways through \<open>sx_reset\<close>\<close>

lemma sx_reset_destructive:
  assumes pres: "dev_present s \<and> pdev_present s \<and> kzalloc_ok E"
    and snap: "device s = SWITCHX_PCI_DEV_ID \<longrightarrow> kmalloc_ok E \<and> fst (save_headers_data E s) = 0"
    and chip: "p \<noteq> 0"
  obtains sN where
    "extends_quietly (emit (Sx_core_dispatch_event SX_DEV_EVENT_PRE_RESET None) (after_gate E s)) sN"
    "sx_reset E p s = sx_reset_out E True (primary_phase_error E s) sN"
proof -
  obtain e0 hca s1 where sv:
    "(if device s = SWITCHX_PCI_DEV_ID
      then (if \<not> kmalloc_ok E then (- ENOMEM, None, s)
            else (let (err, h, s1) = save_headers_data E s in (err, Some h, s1)))
      else (0, None, s)) = (e0, hca, s1)"
    and e0: "(e0 = 0) = (device s = SWITCHX_PCI_DEV_ID \<longrightarrow> kmalloc_ok E \<and> fst (save_headers_data E s) = 0)"
    and s1: "s1 = (if device s = SWITCHX_PCI_DEV_ID \<and> kmalloc_ok E then snd (snd (save_headers_data E s)) else s)"
    and hca: "hca = (if device s = SWITCHX_PCI_DEV_ID \<and> kmalloc_ok E
            then Some (fst (snd (save_headers_data E s))) else None)"
    by (rule sx_reset_snapshot)
  from e0 snap have ok: "e0 = 0" by simp
  from s1 snap have s3: "reset_trigger_gate E (emit Sx_cmd_use_polling s1) = after_gate E s"
    by (simp add: after_gate_def)
  let ?s4 = "emit (Sx_core_dispatch_event SX_DEV_EVENT_PRE_RESET None) (after_gate E s)"
  let ?h = "fst (snd (save_headers_data E s))"
  obtain e5 s5 where pf: "perform_dev_sw_reset E ?s4 = (e5, s5)"
    by (cases "perform_dev_sw_reset E ?s4")
  let ?end = "fst (read_jiffies E s5) + SX_RESET_TIMEOUT_JIFFIES (cfg E)"
  obtain vendor s7 where v: "poll_vendor_id E ?end (snd (read_jiffies E s5)) = (vendor, s7)"
    by (cases "poll_vendor_id E ?end (snd (read_jiffies E s5))")
  have run: "sx_reset E p s =
      (if pre_reset_ret E \<noteq> 0 then sx_reset_out E True (pre_reset_ret E) ?s4
       else if e5 \<noteq> 0 then sx_reset_out E True e5 s5
       else if vendor = 0xffff then sx_reset_out E True (- ENODEV) s7
       else sx_reset_restore E True hca s7)"
    using pres chip by (simp add: sx_reset_def sv ok s3 pf v Let_def split_beta)
  have ppe: "primary_phase_error E s =
      (if pre_reset_ret E \<noteq> 0 then pre_reset_ret E
       else if e5 \<noteq> 0 then e5
       else if vendor = 0xffff then - ENODEV
       else if device s = SWITCHX_PCI_DEV_ID then fst (restore_headers_data E ?h s7)
       else 0)"
    by (simp add: primary_phase_error_def pf v Let_def split_beta)
  have d5: "device s5 = device s"
    using perform_dev_sw_reset_device [of E ?s4] by (simp add: pf emit_fields after_gate_device)
  from poll_vendor_id_effect [OF v] have d7: "device s7 = device s"
    by (simp add: read_jiffies_eq elapse_fields d5)
  have rs: "sx_reset_restore E True hca s7 =
      (if device s = SWITCHX_PCI_DEV_ID
       then sx_reset_out E True (fst (restore_headers_data E ?h s7)) (snd (restore_headers_data E ?h s7))
       else sx_reset_out E True 0 s7)"
    unfolding hca using snap by (simp add: sx_reset_restore_eq d7)
  have q5: "extends_quietly ?s4 s5" using perform_dev_sw_reset_quiet [of ?s4 E] by (simp add: pf)
  have "extends_quietly s5 (snd (read_jiffies E s5))"
    by (simp add: read_jiffies_eq extends_quietly_elapse)
  with q5 have "extends_quietly ?s4 (snd (read_jiffies E s5))" by (rule extends_quietly_trans)
  from this poll_vendor_id_quiet [OF v] have q7: "extends_quietly ?s4 s7" by (rule extends_quietly_trans)
  have "extends_quietly s7 (snd (restore_headers_data E ?h s7))"
    by (rule restore_headers_data_quiet [of E ?h s7 "fst (restore_headers_data E ?h s7)"]) simp
  with q7 have q8: "extends_quietly ?s4 (snd (restore_headers_data E ?h s7))"
    by (rule extends_quietly_trans)
  show ?thesis
  proof (cases "pre_reset_ret E \<noteq> 0")
    case True
    show ?thesis
      by (rule that [of ?s4]) (use True in \<open>simp_all add: run ppe extends_quietly_refl\<close>)
  next
    case pre: False
    show ?thesis
    proof (cases "e5 \<noteq> 0")
      case True
      show ?thesis
        by (rule that [of s5]) (use pre True q5 in \<open>simp_all add: run ppe\<close>)
    next
      case r: False
      show ?thesis
      proof (cases "vendor = 0xffff")
        case True
        show ?thesis
          by (rule that [of s7]) (use pre r True q7 in \<open>simp_all add: run ppe\<close>)
      next
        case vb: False
        show ?thesis
        proof (cases "device s = SWITCHX_PCI_DEV_ID")
          case True
          show ?thesis
            by (rule that [of "snd (restore_headers_data E ?h s7)"])
               (use pre r vb True q8 in \<open>simp_all add: run ppe rs\<close>)
        next
          case False
          show ?thesis
            by (rule that [of s7]) (use pre r vb False q7 in \<open>simp_all add: run ppe rs\<close>)
        qed
      qed
    qed
  qed
qed

lemma sx_reset_nondestructive:
  assumes pres: "dev_present s \<and> pdev_present s \<and> kzalloc_ok E"
    and snap: "device s = SWITCHX_PCI_DEV_ID \<longrightarrow> kmalloc_ok E \<and> fst (save_headers_data E s) = 0"
  shows "fst (sx_reset E 0 s) = readiness_only E s"
    and "extends_quietly (after_gate E s) (snd (sx_reset E 0 s))"
proof -
  obtain e0 hca s1 where sv:
    "(if device s = SWITCHX_PCI_DEV_ID
      then (if \<not> kmalloc_ok E then (- ENOMEM, None, s)
            else (let (err, h, s1) = save_headers_data E s in (err, Some h, s1)))
      else (0, None, s)) = (e0, hca, s1)"
    and e0: "(e0 = 0) = (device s = SWITCHX_PCI_DEV_ID \<longrightarrow> kmalloc_ok E \<and> fst (save_headers_data E s) = 0)"
    and s1: "s1 = (if device s = SWITCHX_PCI_DEV_ID \<and> kmalloc_ok E then snd (snd (save_headers_data E s)) else s)"
    and hca: "hca = (if device s = SWITCHX_PCI_DEV_ID \<and> kmalloc_ok E
            then Some (fst (snd (save_headers_data E s))) else None)"
    by (rule sx_reset_snapshot)
  from e0 snap have ok: "e0 = 0" by simp
  from s1 snap have s3: "reset_trigger_gate E (emit Sx_cmd_use_polling s1) = after_gate E s"
    by (simp add: after_gate_def)
  let ?s3 = "after_gate E s"
  let ?h = "fst (snd (save_headers_data E s))"
  obtain e4 tw4 s4 where w: "wait_for_system_ready E 0 ?s3 = (e4, tw4, s4)"
    by (cases "wait_for_system_ready E 0 ?s3")
  define sX where "sX = (if debug_fw_trace_boot_flow ?s3 = 0 then s4 else ?s3)"
  define eX where "eX = (if debug_fw_trace_boot_flow ?s3 = 0 then e4 else 0)"
  have run: "sx_reset E 0 s =
      (if eX \<noteq> 0 then (- ENODEV, sX) else sx_reset_restore E False hca sX)"
    using pres by (simp add: sx_reset_def sv ok s3 w Let_def sx_reset_out_False sX_def eX_def)
  have ro: "readiness_only E s =
      (if eX \<noteq> 0 then - ENODEV
       else if device s = SWITCHX_PCI_DEV_ID then fst (restore_headers_data E ?h sX)
       else 0)"
    by (simp add: readiness_only_def w Let_def sX_def eX_def)
  have qX: "extends_quietly ?s3 sX"
    using wait_quiet [OF w] by (simp add: sX_def extends_quietly_refl)
  have dX: "device sX = device s"
    using wait_frame(2) [OF w] by (simp add: sX_def after_gate_device)
  have rs: "sx_reset_restore E False hca sX =
      (if device s = SWITCHX_PCI_DEV_ID
       then (fst (restore_headers_data E ?h sX), snd (restore_headers_data E ?h sX))
       else (0, sX))"
    unfolding hca using snap by (simp add: sx_reset_restore_eq dX sx_reset_out_False)
  have "extends_quietly sX (snd (restore_headers_data E ?h sX))"
    by (rule restore_headers_data_quiet [of E ?h sX "fst (restore_headers_data E ?h sX)"]) simp
  with qX have q8: "extends_quietly ?s3 (snd (restore_headers_data E ?h sX))"
    by (rule extends_quietly_trans)
  show "fst (sx_reset E 0 s) = readiness_only E s" by (simp add: run ro rs)
  from qX q8 show "extends_quietly ?s3 (snd (sx_reset E 0 s))" by (simp add: run rs)
qed

lemma sx_reset_stopped_early:
  assumes "\<not> (dev_present s \<and> pdev_present s \<and> kzalloc_ok E \<and>
            (device s = SWITCHX_PCI_DEV_ID \<longrightarrow> kmalloc_ok E \<and> fst (save_headers_data E s) = 0))"
  shows "extends_quietly s (snd (sx_reset E p s))"
    and "fst (sx_reset E p s) =
      (if \<not> dev_present s \<or> \<not> pdev_present s then - ENODEV
       else if \<not> kzalloc_ok E then - ENOMEM
       else if \<not> kmalloc_ok E then - ENOMEM
       else fst (save_headers_data E s))"
proof -
  have "extends_quietly s (snd (sx_reset E p s)) \<and> fst (sx_reset E p s) =
      (if \<not> dev_present s \<or> \<not> pdev_present s then - ENODEV
       else if \<not> kzalloc_ok E then - ENOMEM
       else if \<not> kmalloc_ok E then - ENOMEM
       else fst (save_headers_data E s))"
  proof (cases "dev_present s \<and> pdev_present s \<and> kzalloc_ok E")
    case False
    then show ?thesis by (auto simp: sx_reset_def extends_quietly_refl)
  next
    case pres: True
    obtain e0 hca s1 where sv:
      "(if device s = SWITCHX_PCI_DEV_ID
        then (if \<not> kmalloc_ok E then (- ENOMEM, None, s)
              else (let (err, h, s1) = save_headers_data E s in (err, Some h, s1)))
        else (0, None, s)) = (e0, hca, s1)"
      and q1: "extends_quietly s s1"
      and e0: "(e0 = 0) = (device s = SWITCHX_PCI_DEV_ID \<longrightarrow> kmalloc_ok E \<and> fst (save_headers_data E s) = 0)"
      and ev: "e0 = (if device s = SWITCHX_PCI_DEV_ID
           then (if \<not> kmalloc_ok E then - ENOMEM else fst (save_headers_data E s)) else 0)"
      by (rule sx_reset_snapshot)
    from pres assms e0 have nz: "e0 \<noteq> 0" by simp
    with ev have sx: "device s = SWITCHX_PCI_DEV_ID" by (simp split: if_splits)
    from pres sv nz have "sx_reset E p s = (e0, s1)" by (simp add: sx_reset_def sx_reset_out_False)
    with q1 pres ev sx show ?thesis by simp
  qed
  then show "extends_quietly s (snd (sx_reset E p s))"
    and "fst (sx_reset E p s) =
      (if \<not> dev_present s \<or> \<not> pdev_present s then - ENODEV
       else if \<not> kzalloc_ok E then - ENOMEM
       else if \<not> kmalloc_ok E then - ENOMEM
       else fst (save_headers_data E s))"
    by blast+
qed

lemma sx_reset_through_gate:
  assumes pres: "dev_present s \<and> pdev_present s \<and> kzalloc_ok E"
    and snap: "device s = SWITCHX_PCI_DEV_ID \<longrightarrow> kmalloc_ok E \<and> fst (save_headers_data E s) = 0"
  shows "take (length (trace (after_gate E s))) (trace (snd (sx_reset E p s))) = trace (after_gate E s)"
proof (cases "p = 0")
  case True
  from sx_reset_nondestructive(2) [OF pres snap] show ?thesis
    by (simp add: True extends_quietly_def)
next
  case False
  from pres snap False obtain sN where
    q: "extends_quietly (emit (Sx_core_dispatch_event SX_DEV_EVENT_PRE_RESET None) (after_gate E s)) sN"
    and o: "sx_reset E p s = sx_reset_out E True (primary_phase_error E s) sN"
    by (rule sx_reset_destructive)
  from q obtain t where
    "trace sN = trace (emit (Sx_core_dispatch_event SX_DEV_EVENT_PRE_RESET None) (after_gate E s)) @ t"
    by (rule extends_quietlyE)
  moreover have "snd (sx_reset E p s) =
      emit (Sx_core_dispatch_event SX_DEV_EVENT_POST_RESET (Some (primary_phase_error E s))) sN"
    by (simp add: o sx_reset_out_def Let_def split_beta)
  ultimately show ?thesis by (simp add: emit_fields)
qed

lemmas sx_defs =
  sx_reset_def sx_reset_out_def sx_reset_restore_def reset_trigger_gate_def
  wait_reset_trigger.simps RESET_TRIGGER_TIMEOUT_def env_override_def env_slow_scheduler_def
  state_unarmed_def env_trigger_third_def

text \<open>
  The gate on a kernel with 1000 ticks a second, where nobody sets the trigger and no
  sleep lasts longer than asked: it sleeps a hundred times and sets the trigger itself.
\<close>

lemma reset_trigger_gate_times_out:
  "length (new_events state_unarmed (reset_trigger_gate (env_ready_at 0) state_unarmed)) = 100 \<and>
   reset_trigger (reset_trigger_gate (env_ready_at 0) state_unarmed) = 1"
  by (simp add: sx_defs eval_defs new_events_def)

text \<open>
  Claim C8, as the code has it. Every call of \<open>sx_reset\<close> that gets past the test of
  the device, the allocation of the payload and, for SwitchX, the snapshot goes through
  the gate, whether the chip reset is requested or not: the trace of the call begins
  with the trace up to the end of the gate. The gate itself has no error result and
  always leaves the trigger set. If the trigger is set, it changes nothing and makes no
  call. Otherwise the deadline is the clock plus \<open>10 * HZ\<close> jiffies, and the gate
  goes round by round: it looks at the flag and, if that is clear, at the clock, and
  sleeps 100 ms if the clock is before the deadline. It makes \<open>n\<close> such sleeps and
  no other call, where \<open>n\<close> is the first round at which it finds the flag set or the
  clock at the deadline; in the first case it leaves the flag as it found it, in the
  second it sets the flag to 1 itself. All of its sleeps but the last are over within
  the \<open>10 * HZ\<close> jiffies.
\<close>

theorem reset_trigger_gate_always:
  "(dev_present s \<and> pdev_present s \<and> kzalloc_ok E \<and>
    (device s = SWITCHX_PCI_DEV_ID \<longrightarrow> kmalloc_ok E \<and> fst (save_headers_data E s) = 0) \<longrightarrow>
      take (length (trace (reset_trigger_gate E (emit Sx_cmd_use_polling
              (if device s = SWITCHX_PCI_DEV_ID then snd (snd (save_headers_data E s)) else s)))))
        (trace (snd (sx_reset E p s))) =
      trace (reset_trigger_gate E (emit Sx_cmd_use_polling
              (if device s = SWITCHX_PCI_DEV_ID then snd (snd (save_headers_data E s)) else s)))) \<and>
   reset_trigger (reset_trigger_gate E s0) \<noteq> 0 \<and>
   (reset_trigger s0 \<noteq> 0 \<longrightarrow> reset_trigger_gate E s0 = s0) \<and>
   (reset_trigger s0 = 0 \<longrightarrow>
      (\<exists>n. (\<forall>k<n. reset_trigger ((gate_round E ^^ k) (snd (read_jiffies E s0))) = 0 \<and>
                  time_before (fst (read_jiffies E ((gate_round E ^^ k) (snd (read_jiffies E s0)))))
                    (fst (read_jiffies E s0) + RESET_TRIGGER_TIMEOUT (cfg E))) \<and>
           (reset_trigger ((gate_round E ^^ n) (snd (read_jiffies E s0))) \<noteq> 0 \<or>
            \<not> time_before (fst (read_jiffies E ((gate_round E ^^ n) (snd (read_jiffies E s0)))))
                (fst (read_jiffies E s0) + RESET_TRIGGER_TIMEOUT (cfg E))) \<and>
           reset_trigger_gate E s0 =
             (if reset_trigger ((gate_round E ^^ n) (snd (read_jiffies E s0))) \<noteq> 0
              then (gate_round E ^^ n) (snd (read_jiffies E s0))
              else (snd (read_jiffies E ((gate_round E ^^ n) (snd (read_jiffies E s0)))))
                     \<lparr>reset_trigger := 1\<rparr>) \<and>
           new_events s0 (reset_trigger_gate E s0) = replicate n (Msleep 100) \<and>
           (0 < n \<longrightarrow> (n - 1) * min (unat (msecs_to_jiffies (cfg E) 100) + 1) MAX_STEP
                        < unat (RESET_TRIGGER_TIMEOUT (cfg E)))))"
proof -
  have "take (length (trace (after_gate E s))) (trace (snd (sx_reset E p s))) = trace (after_gate E s)"
    if "dev_present s \<and> pdev_present s \<and> kzalloc_ok E"
      and "device s = SWITCHX_PCI_DEV_ID \<longrightarrow> kmalloc_ok E \<and> fst (save_headers_data E s) = 0"
    using that by (rule sx_reset_through_gate)
  with reset_trigger_gate_effect [of E s0] show ?thesis
    unfolding after_gate_def by blast
qed

theorem reset_trigger_gate_always_witness:
  "take (length (trace (reset_trigger_gate env_trigger_third (emit Sx_cmd_use_polling state_unarmed))))
     (trace (snd (sx_reset env_trigger_third 1 state_unarmed))) =
     trace (reset_trigger_gate env_trigger_third (emit Sx_cmd_use_polling state_unarmed)) \<and>
   reset_trigger_gate env_trigger_third (state0 SPECTRUM_PCI_DEV_ID) = state0 SPECTRUM_PCI_DEV_ID \<and>
   reset_trigger state_unarmed = 0 \<and>
   new_events state_unarmed (reset_trigger_gate env_trigger_third state_unarmed) =
     [Msleep 100, Msleep 100, Msleep 100] \<and>
   reset_trigger (reset_trigger_gate env_trigger_third state_unarmed) = 1 \<and>
   (\<exists>n. new_events state_unarmed (reset_trigger_gate env_trigger_third state_unarmed) =
          replicate n (Msleep 100) \<and>
        (\<forall>k<n. reset_trigger ((gate_round env_trigger_third ^^ k)
                  (snd (read_jiffies env_trigger_third state_unarmed))) = 0) \<and>
        (0 < n \<longrightarrow> (n - 1) * min (unat (msecs_to_jiffies (cfg env_trigger_third) 100) + 1) MAX_STEP
                     < unat (RESET_TRIGGER_TIMEOUT (cfg env_trigger_third))))"
proof -
  let ?E = env_trigger_third
  have c: "dev_present state_unarmed \<and> pdev_present state_unarmed \<and> kzalloc_ok ?E \<and>
    (device state_unarmed = SWITCHX_PCI_DEV_ID \<longrightarrow>
       kmalloc_ok ?E \<and> fst (save_headers_data ?E state_unarmed) = 0)"
    by (simp add: state_unarmed_def state0_def env_trigger_third_def env_ready_at_def env_idle_def)
  have d: "device state_unarmed \<noteq> SWITCHX_PCI_DEV_ID" by (simp add: state_unarmed_def state0_def)
  have a: "reset_trigger (state0 SPECTRUM_PCI_DEV_ID) \<noteq> 0" by (simp add: state0_def)
  have u: "reset_trigger state_unarmed = 0" by (simp add: state_unarmed_def state0_def)
  have e: "new_events state_unarmed (reset_trigger_gate ?E state_unarmed) =
      [Msleep 100, Msleep 100, Msleep 100]"
    by (simp add: sx_defs eval_defs new_events_def)
  have f: "reset_trigger (reset_trigger_gate ?E state_unarmed) = 1"
    by (simp add: sx_defs eval_defs)
  note gate = reset_trigger_gate_always [of state_unarmed ?E 1 state_unarmed]
  from gate c d
  have "take (length (trace (reset_trigger_gate ?E (emit Sx_cmd_use_polling state_unarmed))))
     (trace (snd (sx_reset ?E 1 state_unarmed))) =
     trace (reset_trigger_gate ?E (emit Sx_cmd_use_polling state_unarmed))"
    by simp
  moreover from gate u
  have "\<exists>n. new_events state_unarmed (reset_trigger_gate ?E state_unarmed) =
          replicate n (Msleep 100) \<and>
        (\<forall>k<n. reset_trigger ((gate_round ?E ^^ k) (snd (read_jiffies ?E state_unarmed))) = 0) \<and>
        (0 < n \<longrightarrow> (n - 1) * min (unat (msecs_to_jiffies (cfg ?E) 100) + 1) MAX_STEP
                     < unat (RESET_TRIGGER_TIMEOUT (cfg ?E)))"
    by blast
  moreover from reset_trigger_gate_always [of state_unarmed ?E 1 "state0 SPECTRUM_PCI_DEV_ID"] a
  have "reset_trigger_gate ?E (state0 SPECTRUM_PCI_DEV_ID) = state0 SPECTRUM_PCI_DEV_ID" by blast
  ultimately show ?thesis using e f u by blast
qed

text \<open>
  Claim C8 as it is written fails on its first part: a call that does not request
  the chip reset, on a device whose trigger is not set, waits in the gate, sets the
  trigger itself and goes on to the readiness check.
\<close>

theorem sx_reset_gate_without_reset:
  "fst (sx_reset env_slow_scheduler 0 state_unarmed) = 0 \<and>
   new_events state_unarmed (snd (sx_reset env_slow_scheduler 0 state_unarmed)) =
     [Sx_cmd_use_polling, Msleep 100, Ioremap SX_SYSTEM_STATUS_REG_OFFSET True,
      Printk_wait_for_reset 0, Ioread32be 0x5E, Iounmap SX_SYSTEM_STATUS_REG_OFFSET] \<and>
   reset_trigger (snd (sx_reset env_slow_scheduler 0 state_unarmed)) = 1"
  by (simp add: sx_defs run_defs eval_defs errno_defs)

text \<open>
  Claim C9, as the code has it. If the call requests the chip reset and gets past the
  test of the device, the allocation of the payload and, for SwitchX, the snapshot,
  then it dispatches exactly two notifications, the pre-reset one and after it the
  post-reset one, which is its last call and carries the error code of the primary
  phase; the call returns the error code that the subscribers leave in the payload,
  whatever the dispatch itself returns. In every other case no notification is
  dispatched at all, and the call returns its own error code: \<open>-ENODEV\<close> without
  the device, \<open>-ENOMEM\<close> without the payload or without the buffer of the snapshot,
  the error code of the snapshot if that failed, and the result of the readiness check
  for a call that does not request the chip reset.
\<close>

theorem sx_reset_post_reset_event:
  assumes run: "sx_reset E p s = (ret, s')"
  shows "if dev_present s \<and> pdev_present s \<and> kzalloc_ok E \<and> p \<noteq> 0 \<and>
            (device s = SWITCHX_PCI_DEV_ID \<longrightarrow> kmalloc_ok E \<and> fst (save_headers_data E s) = 0)
         then filter is_dispatch (new_events s s') =
                [Sx_core_dispatch_event SX_DEV_EVENT_PRE_RESET None,
                 Sx_core_dispatch_event SX_DEV_EVENT_POST_RESET (Some (primary_phase_error E s))] \<and>
              last (new_events s s') =
                Sx_core_dispatch_event SX_DEV_EVENT_POST_RESET (Some (primary_phase_error E s)) \<and>
              ret = snd (post_reset_handler E (primary_phase_error E s))
         else filter is_dispatch (new_events s s') = [] \<and>
              ret = (if \<not> dev_present s \<or> \<not> pdev_present s then - ENODEV
                     else if \<not> kzalloc_ok E then - ENOMEM
                     else if device s = SWITCHX_PCI_DEV_ID \<and> \<not> kmalloc_ok E then - ENOMEM
                     else if device s = SWITCHX_PCI_DEV_ID \<and> fst (save_headers_data E s) \<noteq> 0
                     then fst (save_headers_data E s)
                     else readiness_only E s)"
proof (cases "dev_present s \<and> pdev_present s \<and> kzalloc_ok E \<and>
            (device s = SWITCHX_PCI_DEV_ID \<longrightarrow> kmalloc_ok E \<and> fst (save_headers_data E s) = 0)")
  case False
  from sx_reset_stopped_early [OF False, of p] run
  have "extends_quietly s s'" and "ret =
      (if \<not> dev_present s \<or> \<not> pdev_present s then - ENODEV
       else if \<not> kzalloc_ok E then - ENOMEM
       else if \<not> kmalloc_ok E then - ENOMEM
       else fst (save_headers_data E s))"
    by simp_all
  with False show ?thesis by (auto simp: quiet_no_dispatch)
next
  case True
  then have pres: "dev_present s \<and> pdev_present s \<and> kzalloc_ok E"
    and snap: "device s = SWITCHX_PCI_DEV_ID \<longrightarrow> kmalloc_ok E \<and> fst (save_headers_data E s) = 0"
    by blast+
  show ?thesis
  proof (cases "p = 0")
    case p0: True
    from sx_reset_nondestructive [OF pres snap] run p0
    have r: "ret = readiness_only E s" and q: "extends_quietly (after_gate E s) s'" by simp_all
    from after_gate_quiet q have "extends_quietly s s'" by (rule extends_quietly_trans)
    with p0 r True show ?thesis by (auto simp: quiet_no_dispatch)
  next
    case False
    from pres snap False obtain sN where
      q: "extends_quietly (emit (Sx_core_dispatch_event SX_DEV_EVENT_PRE_RESET None) (after_gate E s)) sN"
      and o: "sx_reset E p s = sx_reset_out E True (primary_phase_error E s) sN"
      by (rule sx_reset_destructive)
    from o run have "sx_reset_out E True (primary_phase_error E s) sN = (ret, s')" by simp
    from dispatched_twice [OF after_gate_quiet q this] True False show ?thesis by simp
  qed
qed

theorem sx_reset_post_reset_event_witness:
  "filter is_dispatch (new_events (state0 SPECTRUM_PCI_DEV_ID)
      (snd (sx_reset env_override 1 (state0 SPECTRUM_PCI_DEV_ID)))) =
     [Sx_core_dispatch_event SX_DEV_EVENT_PRE_RESET None,
      Sx_core_dispatch_event SX_DEV_EVENT_POST_RESET (Some 0)] \<and>
   fst (sx_reset env_override 1 (state0 SPECTRUM_PCI_DEV_ID)) = 7 \<and>
   filter is_dispatch (new_events (state0 SPECTRUM_PCI_DEV_ID)
      (snd (sx_reset env_no_mapping 1 (state0 SPECTRUM_PCI_DEV_ID)))) =
     [Sx_core_dispatch_event SX_DEV_EVENT_PRE_RESET None,
      Sx_core_dispatch_event SX_DEV_EVENT_POST_RESET (Some (- ENOMEM))] \<and>
   fst (sx_reset env_no_mapping 1 (state0 SPECTRUM_PCI_DEV_ID)) = - ENOMEM \<and>
   filter is_dispatch (new_events (state0 SPECTRUM_PCI_DEV_ID)
      (snd (sx_reset env_idle 0 (state0 SPECTRUM_PCI_DEV_ID)))) = [] \<and>
   fst (sx_reset env_idle 0 (state0 SPECTRUM_PCI_DEV_ID)) = - ENODEV"
proof -
  let ?s = "state0 SPECTRUM_PCI_DEV_ID"
  have c: "dev_present ?s \<and> pdev_present ?s \<and> kzalloc_ok E \<and> (1 :: u8) \<noteq> 0 \<and>
      (device ?s = SWITCHX_PCI_DEV_ID \<longrightarrow> kmalloc_ok E \<and> fst (save_headers_data E ?s) = 0)"
    if "kzalloc_ok E" for E
    using that by (simp add: state0_def)
  have k: "kzalloc_ok env_override" "kzalloc_ok env_no_mapping" "kzalloc_ok env_idle"
    by (simp_all add: env_override_def env_reset_works_def env_no_mapping_def env_idle_def)
  have p1: "primary_phase_error env_override ?s = 0"
    by (simp add: primary_phase_error_def after_gate_def sx_defs run_defs eval_defs errno_defs)
  have p2: "primary_phase_error env_no_mapping ?s = - ENOMEM"
    by (simp add: primary_phase_error_def after_gate_def env_no_mapping_def sx_defs run_defs
        eval_defs errno_defs)
  have p3: "readiness_only env_idle ?s = - ENODEV"
    by (simp add: readiness_only_def after_gate_def sx_defs run_defs eval_defs errno_defs)
  have h: "snd (post_reset_handler env_override 0) = 7"
    "snd (post_reset_handler env_no_mapping (- ENOMEM)) = - ENOMEM"
    by (simp_all add: env_override_def env_reset_works_def env_no_mapping_def env_idle_def)
  have eq: "sx_reset E p ?s = (fst (sx_reset E p ?s), snd (sx_reset E p ?s))" for E p by simp
  from sx_reset_post_reset_event [OF eq [of env_override 1]] c [OF k(1)]
  have "filter is_dispatch (new_events ?s (snd (sx_reset env_override 1 ?s))) =
     [Sx_core_dispatch_event SX_DEV_EVENT_PRE_RESET None,
      Sx_core_dispatch_event SX_DEV_EVENT_POST_RESET (Some 0)] \<and>
   fst (sx_reset env_override 1 ?s) = 7"
    by (simp add: p1 h)
  moreover from sx_reset_post_reset_event [OF eq [of env_no_mapping 1]] c [OF k(2)]
  have "filter is_dispatch (new_events ?s (snd (sx_reset env_no_mapping 1 ?s))) =
     [Sx_core_dispatch_event SX_DEV_EVENT_PRE_RESET None,
      Sx_core_dispatch_event SX_DEV_EVENT_POST_RESET (Some (- ENOMEM))] \<and>
   fst (sx_reset env_no_mapping 1 ?s) = - ENOMEM"
    by (simp add: p2 h)
  moreover have d: "device ?s \<noteq> SWITCHX_PCI_DEV_ID" by (simp add: state0_def)
  from sx_reset_post_reset_event [OF eq [of env_idle 0]] c [OF k(3)] d
  have "filter is_dispatch (new_events ?s (snd (sx_reset env_idle 0 ?s))) = [] \<and>
   fst (sx_reset env_idle 0 ?s) = - ENODEV"
    by (simp add: p3)
  ultimately show ?thesis by blast
qed

text \<open>
  Claim C9 as it is written fails for a call that does not request the chip reset:
  it returns without any notification.
\<close>

theorem sx_reset_no_post_reset_event:
  "fst (sx_reset (env_ready_at 0) 0 (state0 SPECTRUM_PCI_DEV_ID)) = 0 \<and>
   new_events (state0 SPECTRUM_PCI_DEV_ID) (snd (sx_reset (env_ready_at 0) 0 (state0 SPECTRUM_PCI_DEV_ID))) =
     [Sx_cmd_use_polling, Ioremap SX_SYSTEM_STATUS_REG_OFFSET True, Printk_wait_for_reset 0,
      Ioread32be 0x5E, Iounmap SX_SYSTEM_STATUS_REG_OFFSET]"
  by (simp add: sx_defs run_defs eval_defs errno_defs)

end
